theory Spec2Isabelle
  imports Main "HOL-Library.Sublist" "HOL-Library.Char_ord" "HOL-Library.List_Lexorder"
begin

section \<open>Paths\<close>

text \<open>
  A path is the list of its components below the root directory; relative paths are read
  from the root. \<open>splitSep\<close> cuts a path string at every separator, \<open>cleanOnto\<close> is the
  lexical cleaning that \<^verbatim>\<open>filepath.Clean\<close> performs (empty and \<^verbatim>\<open>.\<close> components
  vanish, \<^verbatim>\<open>..\<close> removes the component before it and is dropped at the root), and
  \<open>Join\<close> is \<^verbatim>\<open>filepath.Join\<close>: the elements are split, appended and cleaned.
\<close>

type_synonym path = "string list"

fun split_on :: "char \<Rightarrow> string \<Rightarrow> string list" where
  "split_on d [] = [[]]"
| "split_on d (c # cs) =
     (if c = d then [] # split_on d cs
      else (case split_on d cs of [] \<Rightarrow> [[c]] | x # xs \<Rightarrow> (c # x) # xs))"

definition splitSep :: "string \<Rightarrow> string list" where
  "splitSep s = split_on CHR ''/'' s"

fun cleanOnto :: "string list \<Rightarrow> string list \<Rightarrow> path" where
  "cleanOnto acc [] = rev acc"
| "cleanOnto acc (c # cs) =
     (if c = [] \<or> c = ''.'' then cleanOnto acc cs
      else if c = ''..'' then cleanOnto (case acc of [] \<Rightarrow> [] | _ # t \<Rightarrow> t) cs
      else cleanOnto (c # acc) cs)"

definition path_of :: "string \<Rightarrow> path" where
  "path_of s = cleanOnto [] (splitSep s)"

definition Join :: "path \<Rightarrow> string list \<Rightarrow> path" where
  "Join dir elems = cleanOnto (rev dir) (concat (map splitSep elems))"

section \<open>Errors\<close>

text \<open>
  A Go \<^verbatim>\<open>error\<close> value: \<open>PathError op path errno\<close> is the \<^verbatim>\<open>*fs.PathError\<close> of package
  \<^verbatim>\<open>os\<close>, \<open>Errorf msg\<close> an error made by \<^verbatim>\<open>fmt.Errorf\<close> from a message alone,
  \<open>Wrapf prefix err\<close> one made by \<^verbatim>\<open>fmt.Errorf\<close> with the verb \<^verbatim>\<open>%w\<close> after \<open>prefix\<close>,
  \<open>LibError\<close> an error of a library outside the repository, and \<open>Canceled\<close> and
  \<open>DeadlineExceeded\<close> the two errors of a context. A function that returns \<^verbatim>\<open>error\<close>
  returns an \<open>error option\<close> here (\<open>None\<close> is \<^verbatim>\<open>nil\<close>), one that returns a value and an
  error returns a sum (\<open>Inl\<close> the error). \<open>fmt_q\<close> is the verb \<^verbatim>\<open>%q\<close> on a string without
  characters to escape, \<open>fmt_v\<close> the verb \<^verbatim>\<open>%v\<close> on a slice of strings.
\<close>

datatype errno = ENOENT | ENOTDIR | EISDIR

datatype error =
    PathError string path errno
  | Errorf string
  | Wrapf string error
  | LibError string
  | Canceled
  | DeadlineExceeded

fun IsNotExist :: "error \<Rightarrow> bool" where
  "IsNotExist (PathError _ _ ENOENT) = True"
| "IsNotExist _ = False"

definition fmt_q :: "string \<Rightarrow> string" where
  "fmt_q s = [CHR 0x22] @ s @ [CHR 0x22]"

definition fmt_v :: "string list \<Rightarrow> string" where
  "fmt_v xs = ''['' @ concat (case xs of [] \<Rightarrow> [] | y # ys \<Rightarrow> y # map (\<lambda>x. CHR '' '' # x) ys) @ '']''"

section \<open>The file system and the process environment\<close>

text \<open>
  The file system is a table from paths to nodes; the newest entry for a path is the one
  in force and nothing is ever removed (the program removes nothing). The root directory
  always exists. Every call into package \<^verbatim>\<open>os\<close> that touches the file system is recorded
  in \<open>trace\<close>, newest last. Permissions are not modelled.
\<close>

datatype node = File string | Dir

datatype syscall =
    SysMkdirAll path
  | SysCreate path
  | SysOpen path
  | SysReadFile path
  | SysWriteFile path
  | SysReadDir path
  | SysStat path

datatype listener_state = NotStarted | Listening | ShutDown

record world =
  files :: "(path \<times> node) list"
  GO_GOOGLE_MCP_CONFIG_DIR :: string
  BaseDir :: string
  UserHomeDir :: "error + string"
  trace :: "syscall list"
  listener :: listener_state

definition lookup :: "(path \<times> node) list \<Rightarrow> path \<Rightarrow> node option" where
  "lookup fs p = (if p = [] then Some Dir else map_of fs p)"

definition is_file :: "node option \<Rightarrow> bool" where
  "is_file n = (case n of Some (File _) \<Rightarrow> True | _ \<Rightarrow> False)"

definition missing_errno :: "(path \<times> node) list \<Rightarrow> path \<Rightarrow> errno" where
  "missing_errno fs p = (if list_ex (\<lambda>q. is_file (lookup fs q)) (prefixes p) then ENOTDIR else ENOENT)"

function mkdirAll :: "path \<Rightarrow> (path \<times> node) list \<Rightarrow> errno + (path \<times> node) list" where
  "mkdirAll p fs =
     (case lookup fs p of
        Some Dir \<Rightarrow> Inr fs
      | Some (File _) \<Rightarrow> Inl ENOTDIR
      | None \<Rightarrow>
          (case mkdirAll (butlast p) fs of
             Inl e \<Rightarrow> Inl e
           | Inr fs1 \<Rightarrow> Inr ((p, Dir) # fs1)))"
  by pat_completeness auto
termination
  by (relation "measure (\<lambda>(p, fs). length p)") (auto simp: lookup_def split: if_splits)

definition logcall :: "syscall \<Rightarrow> world \<Rightarrow> world" where
  "logcall c w = w\<lparr>trace := trace w @ [c]\<rparr>"

definition os_MkdirAll :: "path \<Rightarrow> world \<Rightarrow> error option \<times> world" where
  "os_MkdirAll p w =
     (case mkdirAll p (files w) of
        Inl e \<Rightarrow> (Some (PathError ''mkdir'' p e), logcall (SysMkdirAll p) w)
      | Inr fs1 \<Rightarrow> (None, logcall (SysMkdirAll p) (w\<lparr>files := fs1\<rparr>)))"

text \<open>Creating or truncating a file: the target must not be a directory and its parent
  must be one.\<close>

definition creatable :: "(path \<times> node) list \<Rightarrow> path \<Rightarrow> errno option" where
  "creatable fs p =
     (if lookup fs p = Some Dir then Some EISDIR
      else if lookup fs (butlast p) = Some Dir then None
      else Some (missing_errno fs p))"

definition os_Create :: "path \<Rightarrow> world \<Rightarrow> (error + path) \<times> world" where
  "os_Create p w =
     (case creatable (files w) p of
        Some e \<Rightarrow> (Inl (PathError ''open'' p e), logcall (SysCreate p) w)
      | None \<Rightarrow> (Inr p, logcall (SysCreate p) (w\<lparr>files := (p, File []) # files w\<rparr>)))"

definition file_Write :: "path \<Rightarrow> string \<Rightarrow> world \<Rightarrow> world" where
  "file_Write f bytes w = w\<lparr>files := (f, File bytes) # files w\<rparr>"

definition os_WriteFile :: "path \<Rightarrow> string \<Rightarrow> world \<Rightarrow> error option \<times> world" where
  "os_WriteFile p bytes w =
     (case creatable (files w) p of
        Some e \<Rightarrow> (Some (PathError ''open'' p e), logcall (SysWriteFile p) w)
      | None \<Rightarrow> (None, logcall (SysWriteFile p) (w\<lparr>files := (p, File bytes) # files w\<rparr>)))"

definition os_Open :: "path \<Rightarrow> world \<Rightarrow> (error + path) \<times> world" where
  "os_Open p w =
     (case lookup (files w) p of
        None \<Rightarrow> (Inl (PathError ''open'' p (missing_errno (files w) p)), logcall (SysOpen p) w)
      | Some _ \<Rightarrow> (Inr p, logcall (SysOpen p) w))"

definition file_ReadAll :: "path \<Rightarrow> world \<Rightarrow> error + string" where
  "file_ReadAll f w =
     (case lookup (files w) f of
        Some (File bytes) \<Rightarrow> Inr bytes
      | _ \<Rightarrow> Inl (PathError ''read'' f EISDIR))"

definition os_ReadFile :: "path \<Rightarrow> world \<Rightarrow> (error + string) \<times> world" where
  "os_ReadFile p w =
     (case lookup (files w) p of
        None \<Rightarrow> (Inl (PathError ''open'' p (missing_errno (files w) p)), logcall (SysReadFile p) w)
      | Some Dir \<Rightarrow> (Inl (PathError ''read'' p EISDIR), logcall (SysReadFile p) w)
      | Some (File bytes) \<Rightarrow> (Inr bytes, logcall (SysReadFile p) w))"

definition os_Stat :: "path \<Rightarrow> world \<Rightarrow> (error + node) \<times> world" where
  "os_Stat p w =
     (case lookup (files w) p of
        None \<Rightarrow> (Inl (PathError ''stat'' p (missing_errno (files w) p)), logcall (SysStat p) w)
      | Some n \<Rightarrow> (Inr n, logcall (SysStat p) w))"

text \<open>A directory entry: its name and whether it is a directory. \<open>os.ReadDir\<close> returns
  the entries sorted by name.\<close>

record DirEntry =
  Name :: string
  IsDir :: bool

definition children :: "(path \<times> node) list \<Rightarrow> path \<Rightarrow> string list" where
  "children fs p = sort (remdups (map (\<lambda>(q, n). last q) (filter (\<lambda>(q, n). q \<noteq> [] \<and> butlast q = p) fs)))"

definition os_ReadDir :: "path \<Rightarrow> world \<Rightarrow> (error + DirEntry list) \<times> world" where
  "os_ReadDir p w =
     (case lookup (files w) p of
        None \<Rightarrow> (Inl (PathError ''open'' p (missing_errno (files w) p)), logcall (SysReadDir p) w)
      | Some (File _) \<Rightarrow> (Inl (PathError ''readdir'' p ENOTDIR), logcall (SysReadDir p) w)
      | Some Dir \<Rightarrow>
          (Inr (map (\<lambda>n. \<lparr>Name = n, IsDir = (lookup (files w) (p @ [n]) = Some Dir)\<rparr>)
                  (children (files w) p)),
           logcall (SysReadDir p) w))"

section \<open>The credential store (package auth)\<close>

text \<open>
  An OAuth token with the fields that are serialised. \<^verbatim>\<open>encoding/json\<close> is a library
  outside the repository: the store is given its encoder and decoder for tokens as
  \<open>Encode\<close> and \<open>Decode\<close>.
\<close>

record Token =
  AccessToken :: string
  TokenType :: string
  RefreshToken :: string
  Expiry :: int

record json =
  Encode :: "Token \<Rightarrow> error + string"
  Decode :: "string \<Rightarrow> error + Token"

definition ConfigDirName :: string where "ConfigDirName = ''.go-google-mcp''"
definition TokenFileName :: string where "TokenFileName = ''token.json''"
definition SecretsFileName :: string where "SecretsFileName = ''client_secrets.json''"
definition AccountsDirName :: string where "AccountsDirName = ''accounts''"

definition GetConfigDir :: "world \<Rightarrow> (error + path) \<times> world" where
  "GetConfigDir w =
     (let envDir = GO_GOOGLE_MCP_CONFIG_DIR w in
      if envDir \<noteq> [] then
        (case os_MkdirAll (path_of envDir) w of
           (Some e, w1) \<Rightarrow> (Inl e, w1)
         | (None, w1) \<Rightarrow> (Inr (path_of envDir), w1))
      else
        (case (if BaseDir w \<noteq> [] then Inr (BaseDir w) else UserHomeDir w) of
           Inl e \<Rightarrow> (Inl e, w)
         | Inr home \<Rightarrow>
             (let dir = Join (path_of home) [ConfigDirName] in
              case os_MkdirAll dir w of
                (Some e, w1) \<Rightarrow> (Inl e, w1)
              | (None, w1) \<Rightarrow> (Inr dir, w1))))"

definition SaveToken :: "json \<Rightarrow> Token \<Rightarrow> world \<Rightarrow> error option \<times> world" where
  "SaveToken J token w =
     (case GetConfigDir w of
        (Inl e, w1) \<Rightarrow> (Some e, w1)
      | (Inr dir, w1) \<Rightarrow>
          (case os_Create (Join dir [TokenFileName]) w1 of
             (Inl e, w2) \<Rightarrow> (Some e, w2)
           | (Inr f, w2) \<Rightarrow>
               (case Encode J token of
                  Inl e \<Rightarrow> (Some e, w2)
                | Inr bytes \<Rightarrow> (None, file_Write f bytes w2))))"

definition LoadToken :: "json \<Rightarrow> world \<Rightarrow> (error + Token) \<times> world" where
  "LoadToken J w =
     (case GetConfigDir w of
        (Inl e, w1) \<Rightarrow> (Inl e, w1)
      | (Inr dir, w1) \<Rightarrow>
          (case os_Open (Join dir [TokenFileName]) w1 of
             (Inl e, w2) \<Rightarrow> (Inl e, w2)
           | (Inr f, w2) \<Rightarrow>
               (case file_ReadAll f w2 of
                  Inl e \<Rightarrow> (Inl e, w2)
                | Inr bytes \<Rightarrow>
                    (case Decode J bytes of
                       Inl e \<Rightarrow> (Inl e, w2)
                     | Inr token \<Rightarrow> (Inr token, w2)))))"

definition SaveSecrets :: "string \<Rightarrow> world \<Rightarrow> error option \<times> world" where
  "SaveSecrets srcPath w =
     (case os_ReadFile (path_of srcPath) w of
        (Inl e, w1) \<Rightarrow> (Some e, w1)
      | (Inr content, w1) \<Rightarrow>
          (case GetConfigDir w1 of
             (Inl e, w2) \<Rightarrow> (Some e, w2)
           | (Inr dir, w2) \<Rightarrow> os_WriteFile (Join dir [SecretsFileName]) content w2))"

definition LoadSecrets :: "world \<Rightarrow> (error + string) \<times> world" where
  "LoadSecrets w =
     (case GetConfigDir w of
        (Inl e, w1) \<Rightarrow> (Inl e, w1)
      | (Inr dir, w1) \<Rightarrow> os_ReadFile (Join dir [SecretsFileName]) w1)"

fun Contains :: "string \<Rightarrow> string \<Rightarrow> bool" where
  "Contains [] substr = (substr = [])"
| "Contains (c # cs) substr = (prefix substr (c # cs) \<or> Contains cs substr)"

definition validateAccountName :: "string \<Rightarrow> error option" where
  "validateAccountName account =
     (if account = [] then Some (Errorf ''account name cannot be empty'')
      else if Contains account ''..'' \<or> Contains account ''/''
              \<or> Contains account [CHR 0x5C] \<or> Contains account [CHR 0x00]
      then Some (Errorf (''invalid account name '' @ fmt_q account
                         @ '': must not contain path separators or '' @ [CHR 0x27] @ ''..''
                         @ [CHR 0x27]))
      else None)"

fun IsMultiAccount_range :: "path \<Rightarrow> DirEntry list \<Rightarrow> world \<Rightarrow> bool \<times> world" where
  "IsMultiAccount_range accountsDir [] w = (False, w)"
| "IsMultiAccount_range accountsDir (e # es) w =
     (if IsDir e then
        (case os_Stat (Join accountsDir [Name e, TokenFileName]) w of
           (Inr _, w1) \<Rightarrow> (True, w1)
         | (Inl _, w1) \<Rightarrow> IsMultiAccount_range accountsDir es w1)
      else IsMultiAccount_range accountsDir es w)"

definition IsMultiAccount :: "world \<Rightarrow> (bool \<times> error option) \<times> world" where
  "IsMultiAccount w =
     (case GetConfigDir w of
        (Inl e, w1) \<Rightarrow> ((False, Some e), w1)
      | (Inr dir, w1) \<Rightarrow>
          (let accountsDir = Join dir [AccountsDirName] in
           case os_ReadDir accountsDir w1 of
             (Inl e, w2) \<Rightarrow>
               (if IsNotExist e then ((False, None), w2) else ((False, Some e), w2))
           | (Inr entries, w2) \<Rightarrow>
               (case IsMultiAccount_range accountsDir entries w2 of
                  (b, w3) \<Rightarrow> ((b, None), w3))))"

fun ListAccounts_range ::
  "path \<Rightarrow> DirEntry list \<Rightarrow> string list \<Rightarrow> world \<Rightarrow> string list \<times> world" where
  "ListAccounts_range accountsDir [] accounts w = (accounts, w)"
| "ListAccounts_range accountsDir (e # es) accounts w =
     (if IsDir e then
        (case os_Stat (Join accountsDir [Name e, TokenFileName]) w of
           (Inr _, w1) \<Rightarrow> ListAccounts_range accountsDir es (accounts @ [Name e]) w1
         | (Inl _, w1) \<Rightarrow> ListAccounts_range accountsDir es accounts w1)
      else ListAccounts_range accountsDir es accounts w)"

definition ListAccounts :: "world \<Rightarrow> (error + string list) \<times> world" where
  "ListAccounts w =
     (case GetConfigDir w of
        (Inl e, w1) \<Rightarrow> (Inl e, w1)
      | (Inr dir, w1) \<Rightarrow>
          (let accountsDir = Join dir [AccountsDirName] in
           case os_ReadDir accountsDir w1 of
             (Inl e, w2) \<Rightarrow> (if IsNotExist e then (Inr [], w2) else (Inl e, w2))
           | (Inr entries, w2) \<Rightarrow>
               (case ListAccounts_range accountsDir entries [] w2 of
                  (accounts, w3) \<Rightarrow> (Inr accounts, w3))))"

definition GetAccountDir :: "string \<Rightarrow> world \<Rightarrow> (error + path) \<times> world" where
  "GetAccountDir account w =
     (case validateAccountName account of
        Some e \<Rightarrow> (Inl e, w)
      | None \<Rightarrow>
          (case GetConfigDir w of
             (Inl e, w1) \<Rightarrow> (Inl e, w1)
           | (Inr dir, w1) \<Rightarrow>
               (let accountDir = Join dir [AccountsDirName, account] in
                case os_MkdirAll accountDir w1 of
                  (Some e, w2) \<Rightarrow> (Inl e, w2)
                | (None, w2) \<Rightarrow> (Inr accountDir, w2))))"

definition SaveTokenForAccount :: "json \<Rightarrow> string \<Rightarrow> Token \<Rightarrow> world \<Rightarrow> error option \<times> world" where
  "SaveTokenForAccount J account token w =
     (case GetAccountDir account w of
        (Inl e, w1) \<Rightarrow> (Some e, w1)
      | (Inr dir, w1) \<Rightarrow>
          (case os_Create (Join dir [TokenFileName]) w1 of
             (Inl e, w2) \<Rightarrow> (Some e, w2)
           | (Inr f, w2) \<Rightarrow>
               (case Encode J token of
                  Inl e \<Rightarrow> (Some e, w2)
                | Inr bytes \<Rightarrow> (None, file_Write f bytes w2))))"

definition LoadTokenForAccount :: "json \<Rightarrow> string \<Rightarrow> world \<Rightarrow> (error + Token) \<times> world" where
  "LoadTokenForAccount J account w =
     (case GetAccountDir account w of
        (Inl e, w1) \<Rightarrow> (Inl e, w1)
      | (Inr dir, w1) \<Rightarrow>
          (case os_Open (Join dir [TokenFileName]) w1 of
             (Inl e, w2) \<Rightarrow> (Inl e, w2)
           | (Inr f, w2) \<Rightarrow>
               (case file_ReadAll f w2 of
                  Inl e \<Rightarrow> (Inl e, w2)
                | Inr bytes \<Rightarrow>
                    (case Decode J bytes of
                       Inl e \<Rightarrow> (Inl e, w2)
                     | Inr token \<Rightarrow> (Inr token, w2)))))"

definition LoadSecretsForAccount :: "string \<Rightarrow> world \<Rightarrow> (error + string) \<times> world" where
  "LoadSecretsForAccount account w =
     (case GetAccountDir account w of
        (Inl e, w1) \<Rightarrow> (Inl e, w1)
      | (Inr dir, w1) \<Rightarrow>
          (case os_ReadFile (Join dir [SecretsFileName]) w1 of
             (Inr data, w2) \<Rightarrow> (Inr data, w2)
           | (Inl _, w2) \<Rightarrow> LoadSecrets w2))"

definition SaveSecretsForAccount :: "string \<Rightarrow> string \<Rightarrow> world \<Rightarrow> error option \<times> world" where
  "SaveSecretsForAccount account srcPath w =
     (case os_ReadFile (path_of srcPath) w of
        (Inl e, w1) \<Rightarrow> (Some e, w1)
      | (Inr content, w1) \<Rightarrow>
          (case GetAccountDir account w1 of
             (Inl e, w2) \<Rightarrow> (Some e, w2)
           | (Inr dir, w2) \<Rightarrow> os_WriteFile (Join dir [SecretsFileName]) content w2))"

section \<open>The service registry (package registry)\<close>

text \<open>
  The constructors of the Google API clients and \<^verbatim>\<open>auth.GetClientOptionsForAccount\<close> are
  parameters of the model, the fields of \<open>google\<close>. The second may read and change the file
  system; a client constructor reads the world and leaves it as it is. A \<^verbatim>\<open>*ServiceSet\<close> is
  an address in \<open>heap\<close> (\<open>None\<close> is the nil pointer), and \<open>NewServiceSet\<close> allocates the next
  one. \<open>calls\<close> records, newest last, each time \<open>Resolve\<close> calls one of the two construction
  steps, and for which account. The registry's mutex makes a call of \<open>Resolve\<close> atomic from
  the map lookup on; calls are modelled one after the other.
\<close>

datatype api =
  DriveAPI | GmailAPI | CalendarAPI | SheetsAPI | PeopleAPI | DocsAPI | TasksAPI | ActivityAPI | KeepAPI

record ('o, 'c) google =
  GetClientOptionsForAccount :: "string \<Rightarrow> string list \<Rightarrow> world \<Rightarrow> (error + 'o) \<times> world"
  NewService :: "api \<Rightarrow> 'o \<Rightarrow> world \<Rightarrow> error + 'c"

record 'c ServiceSet =
  Drive :: 'c
  Gmail :: 'c
  Calendar :: 'c
  Sheets :: 'c
  People :: 'c
  Docs :: 'c
  Tasks :: 'c
  Activity :: 'c
  Keep :: 'c

type_synonym ptr = "nat option"

datatype call = CallGetClientOptionsForAccount string | CallNewServiceSet string

record 'c proc =
  heap :: "'c ServiceSet list"
  calls :: "call list"
  os :: world

fun client_name :: "api \<Rightarrow> string" where
  "client_name DriveAPI = ''Drive''"
| "client_name GmailAPI = ''Gmail''"
| "client_name CalendarAPI = ''Calendar''"
| "client_name SheetsAPI = ''Sheets''"
| "client_name PeopleAPI = ''People''"
| "client_name DocsAPI = ''Docs''"
| "client_name TasksAPI = ''Tasks''"
| "client_name ActivityAPI = ''Drive Activity''"
| "client_name KeepAPI = ''Keep''"

text \<open>The nine constructors \<^verbatim>\<open>drivesvc.New\<close>, \<^verbatim>\<open>gmailsvc.New\<close>, ... differ in the API they
  call and in the name in the error message only.\<close>

definition svc_New :: "('o, 'c) google \<Rightarrow> api \<Rightarrow> 'o \<Rightarrow> world \<Rightarrow> error + 'c" where
  "svc_New G a opts w =
     (case NewService G a opts w of
        Inl e \<Rightarrow> Inl (Wrapf (''unable to retrieve '' @ client_name a @ '' client: '') e)
      | Inr srv \<Rightarrow> Inr srv)"

definition NewServiceSet :: "('o, 'c) google \<Rightarrow> 'o \<Rightarrow> 'c proc \<Rightarrow> (error + ptr) \<times> 'c proc" where
  "NewServiceSet G opts s =
     (case svc_New G DriveAPI opts (os s) of Inl e \<Rightarrow> (Inl (Wrapf ''drive: '' e), s) | Inr driveSvc \<Rightarrow>
      case svc_New G GmailAPI opts (os s) of Inl e \<Rightarrow> (Inl (Wrapf ''gmail: '' e), s) | Inr gmailSvc \<Rightarrow>
      case svc_New G CalendarAPI opts (os s) of Inl e \<Rightarrow> (Inl (Wrapf ''calendar: '' e), s) | Inr calendarSvc \<Rightarrow>
      case svc_New G SheetsAPI opts (os s) of Inl e \<Rightarrow> (Inl (Wrapf ''sheets: '' e), s) | Inr sheetsSvc \<Rightarrow>
      case svc_New G PeopleAPI opts (os s) of Inl e \<Rightarrow> (Inl (Wrapf ''people: '' e), s) | Inr peopleSvc \<Rightarrow>
      case svc_New G DocsAPI opts (os s) of Inl e \<Rightarrow> (Inl (Wrapf ''docs: '' e), s) | Inr docsSvc \<Rightarrow>
      case svc_New G TasksAPI opts (os s) of Inl e \<Rightarrow> (Inl (Wrapf ''tasks: '' e), s) | Inr tasksSvc \<Rightarrow>
      case svc_New G ActivityAPI opts (os s) of Inl e \<Rightarrow> (Inl (Wrapf ''activity: '' e), s) | Inr activitySvc \<Rightarrow>
      case svc_New G KeepAPI opts (os s) of Inl e \<Rightarrow> (Inl (Wrapf ''keep: '' e), s) | Inr keepSvc \<Rightarrow>
        (Inr (Some (length (heap s))),
         s\<lparr>heap := heap s @
             [\<lparr>Drive = driveSvc, Gmail = gmailSvc, Calendar = calendarSvc, Sheets = sheetsSvc,
               People = peopleSvc, Docs = docsSvc, Tasks = tasksSvc, Activity = activitySvc,
               Keep = keepSvc\<rparr>]\<rparr>))"

record Registry =
  accounts :: "string \<rightharpoonup> ptr"
  scopes :: "string list"
  legacy :: ptr
  multiAccount :: bool

definition NewLegacyRegistry :: "ptr \<Rightarrow> Registry" where
  "NewLegacyRegistry ss = \<lparr>accounts = Map.empty, scopes = [], legacy = ss, multiAccount = False\<rparr>"

definition NewMultiAccountRegistry :: "string list \<Rightarrow> Registry" where
  "NewMultiAccountRegistry scs = \<lparr>accounts = Map.empty, scopes = scs, legacy = None, multiAccount = True\<rparr>"

definition no_accounts_message :: string where
  "no_accounts_message =
     ''no accounts configured; run: go-google-mcp auth login --account <email> --secrets <path>''"

definition multiple_accounts_message :: string where
  "multiple_accounts_message =
     ''multiple accounts available, please specify '' @ [CHR 0x27] @ ''account'' @ [CHR 0x27]
       @ '' parameter; available: ''"

text \<open>The part of \<open>Resolve\<close> that replaces an empty account parameter.\<close>

definition Resolve_select :: "string \<Rightarrow> world \<Rightarrow> (error + string) \<times> world" where
  "Resolve_select account w =
     (if account = [] then
        (case ListAccounts w of
           (Inl e, w1) \<Rightarrow> (Inl (Wrapf ''failed to list accounts: '' e), w1)
         | (Inr accs, w1) \<Rightarrow>
             (case accs of
                [] \<Rightarrow> (Inl (Errorf no_accounts_message), w1)
              | [a] \<Rightarrow> (Inr a, w1)
              | _ \<Rightarrow> (Inl (Errorf (multiple_accounts_message @ fmt_v accs)), w1)))
      else (Inr account, w))"

text \<open>The part of \<open>Resolve\<close> that runs with the registry's mutex held.\<close>

definition Resolve_locked ::
  "('o, 'c) google \<Rightarrow> string \<Rightarrow> Registry \<Rightarrow> 'c proc \<Rightarrow> (error + ptr) \<times> Registry \<times> 'c proc" where
  "Resolve_locked G account r s =
     (case accounts r account of
        Some ss \<Rightarrow> (Inr ss, r, s)
      | None \<Rightarrow>
          (let s0 = s\<lparr>calls := calls s @ [CallGetClientOptionsForAccount account]\<rparr> in
           case GetClientOptionsForAccount G account (scopes r) (os s0) of
             (Inl e, w1) \<Rightarrow>
               (Inl (Wrapf (''auth for account '' @ fmt_q account @ '': '') e), r, s0\<lparr>os := w1\<rparr>)
           | (Inr opts, w1) \<Rightarrow>
               (let s1 = s0\<lparr>os := w1, calls := calls s0 @ [CallNewServiceSet account]\<rparr> in
                case NewServiceSet G opts s1 of
                  (Inl e, s2) \<Rightarrow>
                    (Inl (Wrapf (''services for account '' @ fmt_q account @ '': '') e), r, s2)
                | (Inr ss, s2) \<Rightarrow>
                    (Inr ss, r\<lparr>accounts := (accounts r)(account \<mapsto> ss)\<rparr>, s2))))"

definition Resolve ::
  "('o, 'c) google \<Rightarrow> string \<Rightarrow> Registry \<Rightarrow> 'c proc \<Rightarrow> (error + ptr) \<times> Registry \<times> 'c proc" where
  "Resolve G account r s =
     (if \<not> multiAccount r then (Inr (legacy r), r, s)
      else
        (case Resolve_select account (os s) of
           (Inl e, w1) \<Rightarrow> (Inl e, r, s\<lparr>os := w1\<rparr>)
         | (Inr account1, w1) \<Rightarrow> Resolve_locked G account1 r (s\<lparr>os := w1\<rparr>)))"

section \<open>The login flow (package auth)\<close>

text \<open>
  \<open>Login\<close> starts the callback server in a goroutine and then waits in a \<^verbatim>\<open>select\<close> for
  the first of: a request on \<^verbatim>\<open>/callback\<close> (with its \<^verbatim>\<open>state\<close> and \<^verbatim>\<open>code\<close> query
  parameters), the failure of \<^verbatim>\<open>ListenAndServe\<close>, or the end of the caller's context.
  Which of them comes first is the input \<open>arrival\<close>. The OAuth library and the random
  source are the fields of \<open>oauth\<close>. \<open>mux\<close> holds the patterns registered with the default
  HTTP multiplexer, which panics on a pattern registered twice. \<open>listener\<close> in the world is
  the state of the callback server's listener: \<^verbatim>\<open>ListenAndServe\<close> opens it unless it fails,
  \<^verbatim>\<open>Shutdown\<close> closes it. What \<open>Login\<close> prints is left out.
\<close>

datatype arrival =
    Callback string string
  | ListenFailed error
  | Done error

record 'cfg oauth =
  ConfigFromJSON :: "string \<Rightarrow> string list \<Rightarrow> error + 'cfg"
  rand_Read :: "nat \<Rightarrow> error + string"
  EncodeToString :: "string \<Rightarrow> string"
  Exchange :: "'cfg \<Rightarrow> string \<Rightarrow> error + Token"

datatype 'a outcome = Returned 'a | Panicked string

definition generateStateToken :: "'cfg oauth \<Rightarrow> error + string" where
  "generateStateToken oa =
     (case rand_Read oa 32 of
        Inl e \<Rightarrow> Inl e
      | Inr b \<Rightarrow> Inr (EncodeToString oa b))"

text \<open>The handler of \<^verbatim>\<open>/callback\<close>: what it sends, and on which channel
  (\<open>Inl\<close> is \<^verbatim>\<open>errChan\<close>, \<open>Inr\<close> is \<^verbatim>\<open>codeChan\<close>).\<close>

definition callback_handler :: "string \<Rightarrow> string \<Rightarrow> string \<Rightarrow> error + string" where
  "callback_handler stateToken state code =
     (if state \<noteq> stateToken then Inl (Errorf ''state token mismatch'')
      else if code = [] then Inl (Errorf ''code not found in URL'')
      else Inr code)"

record process =
  world :: world
  mux :: "string list"

definition Login ::
  "'cfg oauth \<Rightarrow> json \<Rightarrow> arrival \<Rightarrow> string \<Rightarrow> string list \<Rightarrow> process \<Rightarrow> error option outcome \<times> process" where
  "Login oa J arr clientSecrets scs p =
     (case ConfigFromJSON oa clientSecrets scs of
        Inl e \<Rightarrow> (Returned (Some (Wrapf ''unable to parse client secret file to config: '' e)), p)
      | Inr config \<Rightarrow>
     (case generateStateToken oa of
        Inl e \<Rightarrow> (Returned (Some (Wrapf ''failed to generate state token: '' e)), p)
      | Inr stateToken \<Rightarrow>
     (if ''/callback'' \<in> set (mux p) then (Panicked ''http: multiple registrations for /callback'', p)
      else
        (let p1 = p\<lparr>mux := mux p @ [''/callback''],
                    world := (world p)\<lparr>listener :=
                       (case arr of ListenFailed _ \<Rightarrow> listener (world p) | _ \<Rightarrow> Listening)\<rparr>\<rparr>;
             selected =
               (case arr of
                  Callback state code \<Rightarrow>
                    (case callback_handler stateToken state code of
                       Inl e \<Rightarrow> Inl (Wrapf ''server error: '' e)
                     | Inr authCode \<Rightarrow> Inr authCode)
                | ListenFailed e \<Rightarrow> Inl (Wrapf ''server error: '' e)
                | Done e \<Rightarrow> Inl e)
         in case selected of
              Inl e \<Rightarrow> (Returned (Some e), p1)
            | Inr authCode \<Rightarrow>
           (case Exchange oa config authCode of
              Inl e \<Rightarrow> (Returned (Some (Wrapf ''unable to retrieve token from web: '' e)), p1)
            | Inr token \<Rightarrow>
           (case SaveToken J token (world p1) of
              (Some e, w2) \<Rightarrow> (Returned (Some (Wrapf ''failed to save token: '' e)), p1\<lparr>world := w2\<rparr>)
            | (None, w2) \<Rightarrow> (Returned None, p1\<lparr>world := w2\<lparr>listener := ShutDown\<rparr>\<rparr>)))))))"

section \<open>The command line (package main)\<close>

text \<open>
  \<^verbatim>\<open>FlagSet.Parse\<close> of package \<^verbatim>\<open>flag\<close> for a flag set whose flags all take a string
  value: \<open>formal\<close> are the names of the flags defined, \<open>actual\<close> the values set so far.
\<close>

datatype flag_error = ErrHelp | FlagError string

definition cut_value :: "string \<Rightarrow> string \<times> string option" where
  "cut_value name =
     (case name of
        [] \<Rightarrow> ([], None)
      | c # cs \<Rightarrow>
          (if CHR ''='' \<in> set cs
           then (c # takeWhile (\<lambda>x. x \<noteq> CHR ''='') cs, Some (tl (dropWhile (\<lambda>x. x \<noteq> CHR ''='') cs)))
           else (name, None)))"

function flag_Parse ::
  "string list \<Rightarrow> (string \<rightharpoonup> string) \<Rightarrow> string list \<Rightarrow> flag_error + (string \<rightharpoonup> string)" where
  "flag_Parse formal actual [] = Inr actual"
| "flag_Parse formal actual (s # rest) =
     (if length s < 2 \<or> hd s \<noteq> CHR ''-'' then Inr actual
      else if s = ''--'' then Inr actual
      else
        (let name0 = (if s ! 1 = CHR ''-'' then drop 2 s else drop 1 s) in
         if name0 = [] \<or> hd name0 = CHR ''-'' \<or> hd name0 = CHR ''=''
         then Inl (FlagError (''bad flag syntax: '' @ s))
         else
           (case cut_value name0 of
              (name, v) \<Rightarrow>
                if name \<notin> set formal then
                  (if name = ''help'' \<or> name = ''h'' then Inl ErrHelp
                   else Inl (FlagError (''flag provided but not defined: -'' @ name)))
                else
                  (case v of
                     Some value \<Rightarrow> flag_Parse formal (actual(name \<mapsto> value)) rest
                   | None \<Rightarrow>
                       (case rest of
                          [] \<Rightarrow> Inl (FlagError (''flag needs an argument: -'' @ name))
                        | value # rest1 \<Rightarrow> flag_Parse formal (actual(name \<mapsto> value)) rest1)))))"
  by pat_completeness auto
termination
  by (relation "measure (\<lambda>(formal, actual, args). length args)") auto

datatype exit = Exit nat | Return

definition login_scopes :: "string list" where
  "login_scopes =
     [''https://www.googleapis.com/auth/drive'',
      ''https://www.googleapis.com/auth/gmail.readonly'',
      ''https://www.googleapis.com/auth/gmail.send'',
      ''https://www.googleapis.com/auth/gmail.modify'',
      ''https://www.googleapis.com/auth/calendar'',
      ''https://www.googleapis.com/auth/spreadsheets'',
      ''https://www.googleapis.com/auth/contacts'',
      ''https://www.googleapis.com/auth/documents'',
      ''https://www.googleapis.com/auth/tasks'']"

text \<open>\<open>handleAuthCommand\<close> on the argument vector \<open>args\<close> (\<^verbatim>\<open>os.Args\<close>); the flag set exits
  with status 2 on a parse error and with status 0 after printing its help.\<close>

definition handleAuthCommand ::
  "'cfg oauth \<Rightarrow> json \<Rightarrow> arrival \<Rightarrow> string list \<Rightarrow> process \<Rightarrow> exit outcome \<times> process" where
  "handleAuthCommand oa J arr args p =
     (if length args < 3 then (Returned (Exit 1), p)
      else if args ! 2 = ''login'' then
        (case flag_Parse [''secrets''] Map.empty (drop 3 args) of
           Inl ErrHelp \<Rightarrow> (Returned (Exit 0), p)
         | Inl (FlagError _) \<Rightarrow> (Returned (Exit 2), p)
         | Inr actual \<Rightarrow>
             (let secretsPath = (case actual ''secrets'' of None \<Rightarrow> [] | Some v \<Rightarrow> v) in
              if secretsPath = [] then (Returned (Exit 1), p)
              else
                (case os_ReadFile (path_of secretsPath) (world p) of
                   (Inl e, w1) \<Rightarrow> (Returned (Exit 1), p\<lparr>world := w1\<rparr>)
                 | (Inr secrets, w1) \<Rightarrow>
                     (case Login oa J arr secrets login_scopes (p\<lparr>world := w1\<rparr>) of
                        (Panicked m, p2) \<Rightarrow> (Panicked m, p2)
                      | (Returned (Some e), p2) \<Rightarrow> (Returned (Exit 1), p2)
                      | (Returned None, p2) \<Rightarrow>
                          (case SaveSecrets secretsPath (world p2) of
                             (_, w3) \<Rightarrow> (Returned Return, p2\<lparr>world := w3\<rparr>))))))
      else (Returned (Exit 1), p))"

text \<open>Any number of calls of \<open>Resolve\<close> on one registry, one after the other; before each
  call the rest of the system may have changed the world (\<open>change\<close>).\<close>

fun Resolve_seq ::
  "('o, 'c) google \<Rightarrow> (string \<times> (world \<Rightarrow> world)) list \<Rightarrow> Registry \<Rightarrow> 'c proc \<Rightarrow> Registry \<times> 'c proc" where
  "Resolve_seq G [] r s = (r, s)"
| "Resolve_seq G ((account, change) # rest) r s =
     (case Resolve G account r (s\<lparr>os := change (os s)\<rparr>) of
        (_, r1, s1) \<Rightarrow> Resolve_seq G rest r1 s1)"

section \<open>Sample collaborators and inputs\<close>

text \<open>
  A line-oriented stand-in for the JSON codec, a token, a world with an empty file system,
  and stand-ins for the Google and OAuth libraries: the options of an account are its
  stored token, a client is built unless the access token is empty, and the token
  exchange answers with a token made from the code.
\<close>

definition sample_json :: json where
  "sample_json =
     \<lparr>Encode = (\<lambda>t.
        if CHR 0x0A \<in> set (AccessToken t @ TokenType t @ RefreshToken t) \<or> Expiry t < 0
        then Inl (LibError ''json: unsupported value'')
        else Inr (AccessToken t @ [CHR 0x0A] @ TokenType t @ [CHR 0x0A] @ RefreshToken t
                  @ [CHR 0x0A] @ replicate (nat (Expiry t)) CHR ''I'')),
      Decode = (\<lambda>b.
        case split_on CHR 0x0A b of
          [a, t, r, e] \<Rightarrow>
            if set e \<subseteq> {CHR ''I''}
            then Inr \<lparr>AccessToken = a, TokenType = t, RefreshToken = r, Expiry = int (length e)\<rparr>
            else Inl (LibError ''json: cannot unmarshal expiry'')
        | _ \<Rightarrow> Inl (LibError ''unexpected end of JSON input''))\<rparr>"

definition sample_token :: Token where
  "sample_token =
     \<lparr>AccessToken = ''ya29.a0'', TokenType = ''Bearer'', RefreshToken = ''1//0g'', Expiry = 3\<rparr>"

definition sample_world :: world where
  "sample_world =
     \<lparr>files = [], GO_GOOGLE_MCP_CONFIG_DIR = [], BaseDir = [],
      UserHomeDir = Inr ''/home/user'', trace = [], listener = NotStarted\<rparr>"

definition sample_google :: "(Token, string) google" where
  "sample_google =
     \<lparr>GetClientOptionsForAccount = (\<lambda>account scs w. LoadTokenForAccount sample_json account w),
      NewService = (\<lambda>a opts w.
        if AccessToken opts = [] then Inl (LibError ''no credentials'')
        else Inr (client_name a @ '' as '' @ AccessToken opts))\<rparr>"

definition sample_oauth :: "string oauth" where
  "sample_oauth =
     \<lparr>ConfigFromJSON = (\<lambda>secrets scs.
        if secrets = [] then Inl (LibError ''unexpected end of JSON input'') else Inr secrets),
      rand_Read = (\<lambda>n. Inr (replicate n CHR ''r'')),
      EncodeToString = (\<lambda>b. b),
      Exchange = (\<lambda>config code.
        Inr \<lparr>AccessToken = ''at-'' @ code, TokenType = ''Bearer'', RefreshToken = ''rt'',
             Expiry = 3\<rparr>)\<rparr>"

text \<open>The sample world after a token was saved for one account, and for two; a process
  that starts with one of them.\<close>

definition one_account_world :: world where
  "one_account_world = snd (SaveTokenForAccount sample_json ''a@x.com'' sample_token sample_world)"

definition two_account_world :: world where
  "two_account_world = snd (SaveTokenForAccount sample_json ''b@y.org'' sample_token one_account_world)"

definition proc_in :: "world \<Rightarrow> string proc" where
  "proc_in w = \<lparr>heap = [], calls = [], os = w\<rparr>"

section \<open>Vocabulary for the properties\<close>

text \<open>The path \<open>GetConfigDir\<close> computes, before it creates the directory.\<close>

definition configDir :: "world \<Rightarrow> error + path" where
  "configDir w =
     (if GO_GOOGLE_MCP_CONFIG_DIR w \<noteq> [] then Inr (path_of (GO_GOOGLE_MCP_CONFIG_DIR w))
      else
        (case (if BaseDir w \<noteq> [] then Inr (BaseDir w) else UserHomeDir w) of
           Inl e \<Rightarrow> Inl e
         | Inr home \<Rightarrow> Inr (Join (path_of home) [ConfigDirName])))"

text \<open>A file name as a file system holds it; a file system whose entries all have such
  names and lie in directories.\<close>

definition valid_name :: "string \<Rightarrow> bool" where
  "valid_name c = (c \<noteq> [] \<and> c \<noteq> ''.'' \<and> c \<noteq> ''..'' \<and> CHR ''/'' \<notin> set c)"

definition wf_fs :: "(path \<times> node) list \<Rightarrow> bool" where
  "wf_fs fs = list_all (\<lambda>(p, n). list_all valid_name p \<and> lookup fs (butlast p) = Some Dir) fs"

text \<open>Some directory directly below \<open>accountsDir\<close> has an entry named \<^verbatim>\<open>token.json\<close>.\<close>

definition has_token_dir :: "(path \<times> node) list \<Rightarrow> path \<Rightarrow> bool" where
  "has_token_dir fs accountsDir =
     (\<exists>n. lookup fs (accountsDir @ [n]) = Some Dir
        \<and> lookup fs (accountsDir @ [n, TokenFileName]) \<noteq> None)"

text \<open>The names that the loop of \<open>ListAccounts\<close> collects in the directory \<open>accountsDir\<close>,
  as a function of the file system.\<close>

definition token_dirs :: "(path \<times> node) list \<Rightarrow> path \<Rightarrow> string list" where
  "token_dirs fs accountsDir =
     filter (\<lambda>n. lookup fs (accountsDir @ [n]) = Some Dir
                \<and> lookup fs (Join accountsDir [n, TokenFileName]) \<noteq> None)
       (children fs accountsDir)"

text \<open>The path holds a regular file that the decoder accepts as a token.\<close>

definition valid_token_file :: "json \<Rightarrow> (path \<times> node) list \<Rightarrow> path \<Rightarrow> bool" where
  "valid_token_file J fs p =
     (case lookup fs p of Some (File bytes) \<Rightarrow> \<not> isl (Decode J bytes) | _ \<Rightarrow> False)"

text \<open>The one-account world with a shared secrets file, and with a secrets file of the
  account's own besides.\<close>

definition shared_secrets_world :: world where
  "shared_secrets_world =
     snd (os_WriteFile [''home'', ''user'', ''.go-google-mcp'', ''client_secrets.json'']
            ''{shared}'' one_account_world)"

definition override_secrets_world :: world where
  "override_secrets_world =
     snd (os_WriteFile
            [''home'', ''user'', ''.go-google-mcp'', ''accounts'', ''a@x.com'', ''client_secrets.json'']
            ''{override}'' shared_secrets_world)"

text \<open>The sample world after a save whose encoding failed (the sample encoder refuses a
  negative expiry), which leaves an empty \<^verbatim>\<open>token.json\<close>; the sample world with a directory
  where the token file should be; and the sample world with an account directory that
  holds no token.\<close>

definition empty_token_world :: world where
  "empty_token_world =
     snd (SaveTokenForAccount sample_json ''a@x.com'' (sample_token\<lparr>Expiry := - 1\<rparr>) sample_world)"

definition dir_token_world :: world where
  "dir_token_world =
     snd (os_MkdirAll [''home'', ''user'', ''.go-google-mcp'', ''accounts'', ''a@x.com'', ''token.json'']
            sample_world)"

definition no_token_world :: world where
  "no_token_world = snd (GetAccountDir ''a@x.com'' sample_world)"

text \<open>The one-account world with a client secrets file to log in with, a process in it,
  and the callback request that carries the state token of \<open>sample_oauth\<close>.\<close>

definition cli_world :: world where
  "cli_world =
     snd (os_WriteFile [''tmp'', ''cs.json''] ''{secrets}''
            (snd (os_MkdirAll [''tmp''] one_account_world)))"

definition cli_process :: process where
  "cli_process = \<lparr>world = cli_world, mux = []\<rparr>"

definition good_callback :: arrival where
  "good_callback = Callback (replicate 32 CHR ''r'') ''4/0AX''"

text \<open>The sample world with a stored token whose access token is empty, from which the
  sample client constructors build nothing.\<close>

definition blank_token_world :: world where
  "blank_token_world =
     snd (SaveTokenForAccount sample_json ''a@x.com'' (sample_token\<lparr>AccessToken := []\<rparr>) sample_world)"

section \<open>Properties\<close>

subsection \<open>The registry\<close>

lemma NewServiceSet_calls: "NewServiceSet G opts s = (res, s') \<Longrightarrow> calls s' = calls s \<and> os s' = os s"
  by (auto simp: NewServiceSet_def split: sum.splits)

lemma Resolve_locked_keeps:
  "accounts r A = Some p \<Longrightarrow> Resolve_locked G B r s = (res, r1, s1) \<Longrightarrow>
   accounts r1 A = Some p \<and>
   count_list (calls s1) (CallNewServiceSet A) = count_list (calls s) (CallNewServiceSet A)"
  by (auto simp: Resolve_locked_def Let_def  split: option.splits sum.splits prod.splits dest!: NewServiceSet_calls)

lemma Resolve_keeps:
  "accounts r A = Some p \<Longrightarrow> Resolve G B r s = (res, r1, s1) \<Longrightarrow>
   accounts r1 A = Some p \<and>
   count_list (calls s1) (CallNewServiceSet A) = count_list (calls s) (CallNewServiceSet A)"
  by (auto simp: Resolve_def split: if_splits sum.splits prod.splits dest: Resolve_locked_keeps)

lemma Resolve_seq_keeps:
  "accounts r A = Some p \<Longrightarrow> Resolve_seq G steps r s = (r', s') \<Longrightarrow>
   accounts r' A = Some p \<and>
   count_list (calls s') (CallNewServiceSet A) = count_list (calls s) (CallNewServiceSet A)"
proof (induction steps arbitrary: r s)
  case Nil
  then show ?case by simp
next
  case (Cons step steps)
  obtain B change where step: "step = (B, change)" by (cases step)
  obtain res r1 s1 where one: "Resolve G B r (s\<lparr>os := change (os s)\<rparr>) = (res, r1, s1)"
    by (cases "Resolve G B r (s\<lparr>os := change (os s)\<rparr>)")
  from Resolve_keeps[OF Cons.prems(1) one]
  have k: "accounts r1 A = Some p"
    and c: "count_list (calls s1) (CallNewServiceSet A) = count_list (calls s) (CallNewServiceSet A)"
    by simp_all
  from Cons.prems(2) step one have "Resolve_seq G steps r1 s1 = (r', s')" by simp
  from Cons.IH[OF k this] c show ?case by simp
qed

lemma Resolve_nonempty:
  "multiAccount r \<Longrightarrow> A \<noteq> [] \<Longrightarrow> Resolve G A r s = Resolve_locked G A r s"
  by (simp add: Resolve_def Resolve_select_def)

lemma Resolve_locked_ok:
  "Resolve_locked G A r s = (Inr p, r1, s1) \<Longrightarrow>
   accounts r1 A = Some p \<and> multiAccount r1 = multiAccount r \<and>
   count_list (calls s1) (CallNewServiceSet A) =
     count_list (calls s) (CallNewServiceSet A) + (if accounts r A = None then 1 else 0)"
  by (auto simp: Resolve_locked_def Let_def  split: option.splits sum.splits prod.splits dest!: NewServiceSet_calls)

text \<open>
  Claim C1. In multi-account mode, when \<open>Resolve A\<close> succeeds for a non-empty account name,
  every later \<open>Resolve A\<close> on the resulting registry (whatever else has changed) succeeds and
  returns the same pointer without touching registry or process state; the first call has
  invoked \<open>NewServiceSet\<close> for \<open>A\<close> exactly once when \<open>A\<close> had no entry before it (as in a new
  registry) and not at all when it had one. Once the map holds an entry for \<open>A\<close>, no
  sequence of further calls of \<open>Resolve\<close>, for any accounts, constructs for \<open>A\<close> again or
  changes the entry.
\<close>

theorem Resolve_twice_same_instance:
  assumes multi: "multiAccount r" and ne: "A \<noteq> []"
    and first: "Resolve G A r s = (Inr p1, r1, s1)"
  shows "(\<forall>s'. Resolve G A r1 s' = (Inr p1, r1, s'))
       \<and> count_list (calls s1) (CallNewServiceSet A) =
           count_list (calls s) (CallNewServiceSet A) + (if accounts r A = None then 1 else 0)
       \<and> (\<forall>steps ra sa p r' s'.
            accounts ra A = Some p \<and> Resolve_seq G steps ra sa = (r', s') \<longrightarrow>
            accounts r' A = Some p \<and>
            count_list (calls s') (CallNewServiceSet A) = count_list (calls sa) (CallNewServiceSet A))"
proof -
  from first multi ne have l: "Resolve_locked G A r s = (Inr p1, r1, s1)"
    by (simp add: Resolve_nonempty)
  from Resolve_locked_ok[OF l] multi
  have e: "accounts r1 A = Some p1" and m: "multiAccount r1"
    and c: "count_list (calls s1) (CallNewServiceSet A) =
           count_list (calls s) (CallNewServiceSet A) + (if accounts r A = None then 1 else 0)"
    by simp_all
  have "Resolve G A r1 s' = (Inr p1, r1, s')" for s'
    using e m ne by (simp add: Resolve_nonempty Resolve_locked_def)
  with c show ?thesis using Resolve_seq_keeps by blast
qed

text \<open>The two calls on a new registry, with one account stored.\<close>

theorem Resolve_twice_same_instance_witness:
  "fst (Resolve sample_google ''a@x.com'' (NewMultiAccountRegistry []) (proc_in one_account_world)) = Inr (Some 0)
   \<and> fst (Resolve sample_google ''a@x.com''
         (fst (snd (Resolve sample_google ''a@x.com'' (NewMultiAccountRegistry []) (proc_in one_account_world))))
         (snd (snd (Resolve sample_google ''a@x.com'' (NewMultiAccountRegistry []) (proc_in one_account_world)))))
       = Inr (Some 0)
   \<and> count_list (calls (snd (snd (Resolve sample_google ''a@x.com'' (NewMultiAccountRegistry [])
         (proc_in one_account_world))))) (CallNewServiceSet ''a@x.com'') = 1"
proof -
  define r where "r = NewMultiAccountRegistry []"
  define s where "s = proc_in one_account_world"
  define R where "R = Resolve sample_google ''a@x.com'' r s"
  have m: "multiAccount r" by (simp add: r_def NewMultiAccountRegistry_def)
  have ne: "''a@x.com'' \<noteq> []" by simp
  have f: "fst R = Inr (Some 0)" unfolding R_def r_def s_def by code_simp
  then have first: "Resolve sample_google ''a@x.com'' r s = (Inr (Some 0), fst (snd R), snd (snd R))"
    unfolding R_def by (metis prod.collapse)
  have n: "accounts r ''a@x.com'' = None" by (simp add: r_def NewMultiAccountRegistry_def)
  have c0: "count_list (calls s) (CallNewServiceSet ''a@x.com'') = 0" by (simp add: s_def proc_in_def)
  note t = Resolve_twice_same_instance[OF m ne first]
  from t have "Resolve sample_google ''a@x.com'' (fst (snd R)) (snd (snd R)) = (Inr (Some 0), fst (snd R), snd (snd R))"
    by blast
  then have g: "fst (Resolve sample_google ''a@x.com'' (fst (snd R)) (snd (snd R))) = Inr (Some 0)"
    by simp
  from t have "count_list (calls (snd (snd R))) (CallNewServiceSet ''a@x.com'') =
     count_list (calls s) (CallNewServiceSet ''a@x.com'') + (if accounts r ''a@x.com'' = None then 1 else 0)"
    by blast
  with n c0 have c: "count_list (calls (snd (snd R))) (CallNewServiceSet ''a@x.com'') = 1" by simp
  from f g c show ?thesis unfolding R_def r_def s_def by blast
qed


lemma Resolve_failure_registry:
  "Resolve G A r s = (Inl e, r1, s1) \<Longrightarrow> r1 = r"
  by (auto simp: Resolve_def Resolve_locked_def Let_def split: if_splits option.splits sum.splits prod.splits)

lemma Resolve_failure_uncached:
  "multiAccount r \<Longrightarrow> A \<noteq> [] \<Longrightarrow> Resolve G A r s = (Inl e, r1, s1) \<Longrightarrow> accounts r A = None"
  by (auto simp: Resolve_nonempty Resolve_locked_def split: option.splits)

lemma Resolve_locked_miss_calls:
  "accounts r A = None \<Longrightarrow>
   \<exists>res r2 s2 cs. Resolve_locked G A r s = (res, r2, s2)
      \<and> calls s2 = calls s @ CallGetClientOptionsForAccount A # cs"
  by (auto simp: Resolve_locked_def Let_def split: option.splits sum.splits prod.splits dest!: NewServiceSet_calls)

lemma Resolve_locked_miss_ok:
  "accounts r A = None \<Longrightarrow>
   GetClientOptionsForAccount G A (scopes r) (os s) = (Inr opts, w) \<Longrightarrow>
   NewServiceSet G opts
      (s\<lparr>os := w, calls := calls s @ [CallGetClientOptionsForAccount A, CallNewServiceSet A]\<rparr>) = (Inr p, s2) \<Longrightarrow>
   Resolve_locked G A r s = (Inr p, r\<lparr>accounts := (accounts r)(A \<mapsto> p)\<rparr>, s2)"
  by (simp add: Resolve_locked_def Let_def)

text \<open>
  Claim C2. A call of \<open>Resolve\<close> that returns an error leaves the registry, and so its
  account map, exactly as it was. In multi-account mode and for a non-empty account name
  \<open>A\<close>, \<open>A\<close> then still has no entry, so every later \<open>Resolve A\<close>, in whatever state of the
  process, calls the credential-loading step for \<open>A\<close> again; and when that step and the
  construction then succeed, the call succeeds and stores the new pointer.
\<close>

theorem Resolve_failure_not_cached:
  assumes fail: "Resolve G A r s = (Inl e, r1, s1)"
  shows "r1 = r
     \<and> (multiAccount r \<and> A \<noteq> [] \<longrightarrow>
          accounts r1 A = None
        \<and> (\<forall>s'. \<exists>res r2 s2 cs. Resolve G A r1 s' = (res, r2, s2)
               \<and> calls s2 = calls s' @ CallGetClientOptionsForAccount A # cs)
        \<and> (\<forall>s' opts w p s2.
              GetClientOptionsForAccount G A (scopes r1) (os s') = (Inr opts, w)
            \<and> NewServiceSet G opts
                 (s'\<lparr>os := w, calls := calls s' @ [CallGetClientOptionsForAccount A, CallNewServiceSet A]\<rparr>)
                = (Inr p, s2)
            \<longrightarrow> Resolve G A r1 s' = (Inr p, r1\<lparr>accounts := (accounts r1)(A \<mapsto> p)\<rparr>, s2)))"
proof -
  have same: "r1 = r" using fail by (rule Resolve_failure_registry)
  { assume multi: "multiAccount r" and ne: "A \<noteq> []"
    have none: "accounts r A = None" using multi ne fail by (rule Resolve_failure_uncached)
    have "\<exists>res r2 s2 cs. Resolve G A r s' = (res, r2, s2)
               \<and> calls s2 = calls s' @ CallGetClientOptionsForAccount A # cs" for s'
      using Resolve_locked_miss_calls[OF none] multi ne by (simp add: Resolve_nonempty)
    moreover have "Resolve G A r s' = (Inr p, r\<lparr>accounts := (accounts r)(A \<mapsto> p)\<rparr>, s2)"
      if "GetClientOptionsForAccount G A (scopes r) (os s') = (Inr opts, w)"
        and "NewServiceSet G opts
                 (s'\<lparr>os := w, calls := calls s' @ [CallGetClientOptionsForAccount A, CallNewServiceSet A]\<rparr>)
                = (Inr p, s2)" for s' opts w p s2
      using Resolve_locked_miss_ok[OF none that] multi ne by (simp add: Resolve_nonempty)
    ultimately have "accounts r A = None
        \<and> (\<forall>s'. \<exists>res r2 s2 cs. Resolve G A r s' = (res, r2, s2)
               \<and> calls s2 = calls s' @ CallGetClientOptionsForAccount A # cs)
        \<and> (\<forall>s' opts w p s2.
              GetClientOptionsForAccount G A (scopes r) (os s') = (Inr opts, w)
            \<and> NewServiceSet G opts
                 (s'\<lparr>os := w, calls := calls s' @ [CallGetClientOptionsForAccount A, CallNewServiceSet A]\<rparr>)
                = (Inr p, s2)
            \<longrightarrow> Resolve G A r s' = (Inr p, r\<lparr>accounts := (accounts r)(A \<mapsto> p)\<rparr>, s2))"
      using none by blast }
  then show ?thesis unfolding same by blast
qed

text \<open>A call that fails in the credential-loading step (the account has no token), a call
  after its token was saved, and a call that fails in the construction step.\<close>

theorem Resolve_failure_not_cached_witness:
  "isl (fst (Resolve sample_google ''a@x.com'' (NewMultiAccountRegistry []) (proc_in sample_world)))
   \<and> fst (snd (Resolve sample_google ''a@x.com'' (NewMultiAccountRegistry []) (proc_in sample_world)))
       = NewMultiAccountRegistry []
   \<and> fst (Resolve sample_google ''a@x.com''
          (fst (snd (Resolve sample_google ''a@x.com'' (NewMultiAccountRegistry []) (proc_in sample_world))))
          (proc_in one_account_world)) = Inr (Some 0)
   \<and> calls (snd (snd (Resolve sample_google ''a@x.com'' (NewMultiAccountRegistry [])
          (proc_in blank_token_world))))
       = [CallGetClientOptionsForAccount ''a@x.com'', CallNewServiceSet ''a@x.com'']
   \<and> isl (fst (Resolve sample_google ''a@x.com'' (NewMultiAccountRegistry []) (proc_in blank_token_world)))
   \<and> fst (snd (Resolve sample_google ''a@x.com'' (NewMultiAccountRegistry []) (proc_in blank_token_world)))
       = NewMultiAccountRegistry []"
proof -
  define r where "r = NewMultiAccountRegistry []"
  define R where "R = Resolve sample_google ''a@x.com'' r (proc_in sample_world)"
  define B where "B = Resolve sample_google ''a@x.com'' r (proc_in blank_token_world)"
  have f: "isl (fst R)" unfolding R_def r_def by code_simp
  then obtain e where "fst R = Inl e" by (cases "fst R") simp_all
  then have fail: "Resolve sample_google ''a@x.com'' r (proc_in sample_world) = (Inl e, fst (snd R), snd (snd R))"
    unfolding R_def by (metis prod.collapse)
  have same: "fst (snd R) = r"
    using Resolve_failure_not_cached[OF fail] by blast
  have later: "fst (Resolve sample_google ''a@x.com'' r (proc_in one_account_world)) = Inr (Some 0)"
    unfolding r_def by code_simp
  have c: "calls (snd (snd B)) = [CallGetClientOptionsForAccount ''a@x.com'', CallNewServiceSet ''a@x.com'']"
    unfolding B_def r_def by code_simp
  have g: "isl (fst B)" unfolding B_def r_def by code_simp
  then obtain e' where "fst B = Inl e'" by (cases "fst B") simp_all
  then have fail': "Resolve sample_google ''a@x.com'' r (proc_in blank_token_world) = (Inl e', fst (snd B), snd (snd B))"
    unfolding B_def by (metis prod.collapse)
  have same': "fst (snd B) = r"
    using Resolve_failure_not_cached[OF fail'] by blast
  from f same later c g same' show ?thesis unfolding R_def B_def r_def by simp
qed



lemma sublist_concat_member: "x \<in> set xss \<Longrightarrow> sublist x (concat xss)"
proof (induction xss)
  case Nil
  then show ?case by simp
next
  case (Cons y ys)
  show ?case
  proof (cases "x = y")
    case True
    then show ?thesis by (simp add: sublist_appendI)
  next
    case False
    with Cons have "sublist x (concat ys)" by simp
    then show ?thesis by (simp add: sublist_append)
  qed
qed

lemma sublist_fmt_v:
  assumes mem: "a \<in> set xs"
  shows "sublist a (fmt_v xs)"
proof (cases xs)
  case Nil
  with mem show ?thesis by simp
next
  case (Cons y ys)
  have "\<exists>z \<in> set (y # map (\<lambda>x. CHR '' '' # x) ys). sublist a z"
  proof (cases "a = y")
    case True
    then show ?thesis by auto
  next
    case False
    with mem Cons have "a \<in> set ys" by simp
    then have "CHR '' '' # a \<in> set (map (\<lambda>x. CHR '' '' # x) ys)" by (simp add: image_iff)
    moreover have "sublist a (CHR '' '' # a)"
      unfolding sublist_def by (rule exI[of _ "'' ''"], rule exI[of _ "[]"]) simp
    ultimately show ?thesis by (metis list.set_intros(2))
  qed
  then obtain z where z: "z \<in> set (y # map (\<lambda>x. CHR '' '' # x) ys)" and az: "sublist a z" by blast
  from z have "sublist z (concat (y # map (\<lambda>x. CHR '' '' # x) ys))" by (rule sublist_concat_member)
  with az have "sublist a (concat (y # map (\<lambda>x. CHR '' '' # x) ys))"
    by (rule sublist_order.order_trans)
  then obtain ps ss where "concat (y # map (\<lambda>x. CHR '' '' # x) ys) = ps @ a @ ss"
    unfolding sublist_def by blast
  then have "''['' @ concat (y # map (\<lambda>x. CHR '' '' # x) ys) @ '']'' = (''['' @ ps) @ a @ (ss @ '']'')"
    by simp
  then have "sublist a (''['' @ concat (y # map (\<lambda>x. CHR '' '' # x) ys) @ '']'')"
    unfolding sublist_def by blast
  with Cons show ?thesis by (simp add: fmt_v_def)
qed

text \<open>
  Claim C3. In multi-account mode, when \<open>ListAccounts\<close> answers with the list \<open>accs\<close>,
  \<open>Resolve\<close> of the empty account string: fails with the no-accounts error when \<open>accs\<close> is
  empty; is the very call \<open>Resolve X\<close> (in the world the listing left) when \<open>accs\<close> is the one
  non-empty name \<open>X\<close>, and returns the cached pointer of \<open>X\<close> when there is one; fails with
  the multiple-accounts error when \<open>accs\<close> has two names or more, and then every name of
  \<open>accs\<close> occurs in the message.
\<close>

theorem Resolve_empty_account:
  assumes multi: "multiAccount r" and list: "ListAccounts (os s) = (Inr accs, w1)"
  shows "(accs = [] \<longrightarrow> Resolve G [] r s = (Inl (Errorf no_accounts_message), r, s\<lparr>os := w1\<rparr>))
     \<and> (\<forall>X. accs = [X] \<longrightarrow>
            (X \<noteq> [] \<longrightarrow> Resolve G [] r s = Resolve G X r (s\<lparr>os := w1\<rparr>))
          \<and> (\<forall>p. accounts r X = Some p \<longrightarrow> Resolve G [] r s = (Inr p, r, s\<lparr>os := w1\<rparr>)))
     \<and> (2 \<le> length accs \<longrightarrow>
            Resolve G [] r s = (Inl (Errorf (multiple_accounts_message @ fmt_v accs)), r, s\<lparr>os := w1\<rparr>)
          \<and> (\<forall>a \<in> set accs. sublist a (multiple_accounts_message @ fmt_v accs)))"
proof (intro conjI impI allI ballI)
  assume "accs = []"
  with multi list show "Resolve G [] r s = (Inl (Errorf no_accounts_message), r, s\<lparr>os := w1\<rparr>)"
    by (simp add: Resolve_def Resolve_select_def)
next
  fix X assume one: "accs = [X]"
  with multi list have sel: "Resolve G [] r s = Resolve_locked G X r (s\<lparr>os := w1\<rparr>)"
    by (simp add: Resolve_def Resolve_select_def)
  { assume "X \<noteq> []"
    with multi sel show "Resolve G [] r s = Resolve G X r (s\<lparr>os := w1\<rparr>)"
      by (simp add: Resolve_nonempty) }
  { fix p assume "accounts r X = Some p"
    with sel show "Resolve G [] r s = (Inr p, r, s\<lparr>os := w1\<rparr>)"
      by (simp add: Resolve_locked_def) }
next
  assume "2 \<le> length accs"
  then obtain a b cs where "accs = a # b # cs"
    by (cases accs; cases "tl accs") auto
  with multi list
  show "Resolve G [] r s = (Inl (Errorf (multiple_accounts_message @ fmt_v accs)), r, s\<lparr>os := w1\<rparr>)"
    by (simp add: Resolve_def Resolve_select_def)
next
  fix a assume "2 \<le> length accs" and "a \<in> set accs"
  then have "sublist a (fmt_v accs)" by (simp add: sublist_fmt_v)
  then show "sublist a (multiple_accounts_message @ fmt_v accs)"
    by (simp add: sublist_append)
qed


text \<open>No account, one account and two accounts in the store.\<close>

theorem Resolve_empty_account_witness:
  "fst (Resolve sample_google [] (NewMultiAccountRegistry []) (proc_in sample_world))
     = Inl (Errorf no_accounts_message)
   \<and> fst (ListAccounts one_account_world) = Inr [''a@x.com'']
   \<and> Resolve sample_google [] (NewMultiAccountRegistry []) (proc_in one_account_world)
     = Resolve sample_google ''a@x.com'' (NewMultiAccountRegistry [])
         ((proc_in one_account_world)\<lparr>os := snd (ListAccounts one_account_world)\<rparr>)
   \<and> fst (Resolve sample_google [] (NewMultiAccountRegistry []) (proc_in one_account_world)) = Inr (Some 0)
   \<and> fst (ListAccounts two_account_world) = Inr [''a@x.com'', ''b@y.org'']
   \<and> fst (Resolve sample_google [] (NewMultiAccountRegistry []) (proc_in two_account_world))
     = Inl (Errorf (multiple_accounts_message @ ''[a@x.com b@y.org]''))
   \<and> sublist ''b@y.org'' (multiple_accounts_message @ ''[a@x.com b@y.org]'')"
proof -
  define r where "r = NewMultiAccountRegistry []"
  have m: "multiAccount r" by (simp add: r_def NewMultiAccountRegistry_def)
  have os: "os (proc_in w) = w" for w by (simp add: proc_in_def)
  have l0: "fst (ListAccounts sample_world) = Inr []" by code_simp
  then have L0: "ListAccounts (os (proc_in sample_world)) = (Inr [], snd (ListAccounts sample_world))"
    unfolding os by (metis prod.collapse)
  have l1: "fst (ListAccounts one_account_world) = Inr [''a@x.com'']" by code_simp
  then have L1: "ListAccounts (os (proc_in one_account_world))
      = (Inr [''a@x.com''], snd (ListAccounts one_account_world))"
    unfolding os by (metis prod.collapse)
  have l2: "fst (ListAccounts two_account_world) = Inr [''a@x.com'', ''b@y.org'']" by code_simp
  then have L2: "ListAccounts (os (proc_in two_account_world))
      = (Inr [''a@x.com'', ''b@y.org''], snd (ListAccounts two_account_world))"
    unfolding os by (metis prod.collapse)
  have f: "fmt_v [''a@x.com'', ''b@y.org''] = ''[a@x.com b@y.org]''" by (simp add: fmt_v_def)
  have a: "fst (Resolve sample_google [] r (proc_in sample_world)) = Inl (Errorf no_accounts_message)"
    using Resolve_empty_account[OF m L0, of sample_google] by simp
  have b: "Resolve sample_google [] r (proc_in one_account_world)
     = Resolve sample_google ''a@x.com'' r ((proc_in one_account_world)\<lparr>os := snd (ListAccounts one_account_world)\<rparr>)"
    using Resolve_empty_account[OF m L1, of sample_google] by simp
  have b': "fst (Resolve sample_google [] r (proc_in one_account_world)) = Inr (Some 0)"
    unfolding r_def by code_simp
  have c: "fst (Resolve sample_google [] r (proc_in two_account_world))
     = Inl (Errorf (multiple_accounts_message @ ''[a@x.com b@y.org]''))
     \<and> sublist ''b@y.org'' (multiple_accounts_message @ ''[a@x.com b@y.org]'')"
    using Resolve_empty_account[OF m L2, of sample_google] unfolding f by simp
  from a l1 b b' l2 c show ?thesis unfolding r_def by blast
qed

text \<open>
  Claim C4. A registry made by \<open>NewLegacyRegistry\<close> answers every \<open>Resolve\<close>, whatever the
  account string (the empty one included), with the pointer it was made from; it returns
  no error and changes neither the registry nor the process state.
\<close>

theorem Resolve_legacy:
  "Resolve G account (NewLegacyRegistry ss) s = (Inr ss, NewLegacyRegistry ss, s)"
  by (simp add: Resolve_def NewLegacyRegistry_def)

theorem Resolve_legacy_witness:
  "Resolve sample_google [] (NewLegacyRegistry (Some 7)) (proc_in sample_world)
     = (Inr (Some 7), NewLegacyRegistry (Some 7), proc_in sample_world)
   \<and> Resolve sample_google ''ignored@example.com'' (NewLegacyRegistry (Some 7)) (proc_in sample_world)
     = (Inr (Some 7), NewLegacyRegistry (Some 7), proc_in sample_world)"
  using Resolve_legacy[of sample_google "[]" "Some 7" "proc_in sample_world"]
    Resolve_legacy[of sample_google "''ignored@example.com''" "Some 7" "proc_in sample_world"]
  by blast

subsection \<open>The file system\<close>

declare mkdirAll.simps [simp del]

lemma lookup_Cons: "lookup ((p, n) # fs) q = (if q = [] then Some Dir else if q = p then Some n else lookup fs q)"
  by (simp add: lookup_def)

lemma lookup_append_new:
  "\<forall>x\<in>set new. fst x \<noteq> q \<Longrightarrow> lookup (new @ fs) q = lookup fs q"
  by (induction new) (auto simp: lookup_def)

lemma mkdirAll_new:
  "mkdirAll p fs = Inr fs' \<Longrightarrow>
   \<exists>new. fs' = new @ fs \<and> (\<forall>x\<in>set new. prefix (fst x) p \<and> fst x \<noteq> [] \<and> snd x = Dir \<and> lookup fs (fst x) = None)"
proof (induction p fs arbitrary: fs' rule: mkdirAll.induct)
  case (1 p fs)
  show ?case
  proof (cases "lookup fs p")
    case None
    with "1.prems" obtain fs1 where rec: "mkdirAll (butlast p) fs = Inr fs1" and fs': "fs' = (p, Dir) # fs1"
      by (auto simp: mkdirAll.simps[of p fs] split: sum.splits)
    from "1.IH"[OF None rec] obtain new where new: "fs1 = new @ fs"
      and all: "\<forall>x\<in>set new. prefix (fst x) (butlast p) \<and> fst x \<noteq> [] \<and> snd x = Dir \<and> lookup fs (fst x) = None"
      by blast
    from None have ne: "p \<noteq> []" by (auto simp: lookup_def)
    have pb: "prefix q (butlast p) \<Longrightarrow> prefix q p" for q
      by (metis prefix_order.order_trans prefixeq_butlast)
    have "fs' = ((p, Dir) # new) @ fs" using fs' new by simp
    moreover have "\<forall>x\<in>set ((p, Dir) # new). prefix (fst x) p \<and> fst x \<noteq> [] \<and> snd x = Dir \<and> lookup fs (fst x) = None"
      using all None ne pb by auto
    ultimately show ?thesis by blast
  next
    case (Some n)
    with "1.prems" have "fs' = fs" by (cases n) (auto simp: mkdirAll.simps[of p fs])
    then show ?thesis by (intro exI[of _ "[]"]) simp
  qed
qed

lemma mkdirAll_dir: "mkdirAll p fs = Inr fs' \<Longrightarrow> lookup fs' p = Some Dir"
proof (induction p fs arbitrary: fs' rule: mkdirAll.induct)
  case (1 p fs)
  then show ?case
    by (cases "lookup fs p") (auto simp: mkdirAll.simps[of p fs] lookup_Cons lookup_def split: sum.splits node.splits)
qed

lemma mkdirAll_idem: "lookup fs p = Some Dir \<Longrightarrow> mkdirAll p fs = Inr fs"
  by (simp add: mkdirAll.simps[of p fs])

lemma mkdirAll_keep:
  assumes "mkdirAll p fs = Inr fs'" and "lookup fs q = Some n"
  shows "lookup fs' q = Some n"
proof -
  from mkdirAll_new[OF assms(1)] obtain new where new: "fs' = new @ fs"
    and all: "\<forall>x\<in>set new. prefix (fst x) p \<and> fst x \<noteq> [] \<and> snd x = Dir \<and> lookup fs (fst x) = None"
    by blast
  from all assms(2) have "\<forall>x\<in>set new. fst x \<noteq> q" by auto
  then show ?thesis using new assms(2) by (simp add: lookup_append_new)
qed

lemma mkdirAll_file_iff:
  assumes "mkdirAll p fs = Inr fs'"
  shows "lookup fs' q = Some (File b) \<longleftrightarrow> lookup fs q = Some (File b)"
proof
  assume "lookup fs q = Some (File b)"
  with assms show "lookup fs' q = Some (File b)" by (rule mkdirAll_keep)
next
  assume f: "lookup fs' q = Some (File b)"
  from mkdirAll_new[OF assms] obtain new where new: "fs' = new @ fs"
    and all: "\<forall>x\<in>set new. prefix (fst x) p \<and> fst x \<noteq> [] \<and> snd x = Dir \<and> lookup fs (fst x) = None"
    by blast
  show "lookup fs q = Some (File b)"
  proof (cases "\<exists>x\<in>set new. fst x = q")
    case True
    then obtain x where x: "x \<in> set new" "fst x = q" by blast
    with all have qne: "q \<noteq> []" by auto
    from x have "q \<in> fst ` set new" by force
    then obtain n where n: "map_of new q = Some n"
      by (metis map_of_eq_None_iff not_None_eq)
    then have "(q, n) \<in> set new" by (rule map_of_SomeD)
    with all have "n = Dir" by force
    with n new qne have "lookup fs' q = Some Dir" by (simp add: lookup_def map_of_append)
    with f show ?thesis by simp
  next
    case False
    then show ?thesis using f new by (simp add: lookup_append_new)
  qed
qed

subsection \<open>The credential store\<close>

lemma configDir_files [simp]: "configDir (w\<lparr>files := x\<rparr>) = configDir w"
  by (simp add: configDir_def)

lemma configDir_logcall [simp]: "configDir (logcall c w) = configDir w"
  by (simp add: configDir_def logcall_def)

lemma files_logcall [simp]: "files (logcall c w) = files w"
  by (simp add: logcall_def)

lemma GetConfigDir_eq:
  "GetConfigDir w =
     (case configDir w of
        Inl e \<Rightarrow> (Inl e, w)
      | Inr dir \<Rightarrow>
          (case mkdirAll dir (files w) of
             Inl e \<Rightarrow> (Inl (PathError ''mkdir'' dir e), logcall (SysMkdirAll dir) w)
           | Inr fs1 \<Rightarrow> (Inr dir, logcall (SysMkdirAll dir) (w\<lparr>files := fs1\<rparr>))))"
  by (auto simp: GetConfigDir_def configDir_def os_MkdirAll_def Let_def split: sum.splits)

lemma GetConfigDir_ok:
  "GetConfigDir w = (Inr dir, w1) \<Longrightarrow>
   configDir w = Inr dir \<and>
   (\<exists>fs1. mkdirAll dir (files w) = Inr fs1 \<and> w1 = logcall (SysMkdirAll dir) (w\<lparr>files := fs1\<rparr>))"
  by (auto simp: GetConfigDir_eq split: sum.splits)

lemma GetConfigDir_again:
  "configDir w = Inr dir \<Longrightarrow> lookup (files w) dir = Some Dir \<Longrightarrow>
   GetConfigDir w = (Inr dir, logcall (SysMkdirAll dir) w)"
  by (simp add: GetConfigDir_eq mkdirAll_idem)

lemma GetAccountDir_ok:
  "GetAccountDir A w = (Inr ad, w2) \<Longrightarrow>
   validateAccountName A = None \<and>
   (\<exists>dir fs1 fs2. configDir w = Inr dir \<and> ad = Join dir [AccountsDirName, A]
      \<and> mkdirAll dir (files w) = Inr fs1 \<and> mkdirAll ad fs1 = Inr fs2
      \<and> w2 = logcall (SysMkdirAll ad) (logcall (SysMkdirAll dir) (w\<lparr>files := fs2\<rparr>)))"
  by (auto simp: GetAccountDir_def GetConfigDir_eq os_MkdirAll_def logcall_def Let_def
           split: option.splits sum.splits prod.splits)

lemma GetAccountDir_again:
  "validateAccountName A = None \<Longrightarrow> configDir w = Inr dir \<Longrightarrow>
   lookup (files w) dir = Some Dir \<Longrightarrow> lookup (files w) (Join dir [AccountsDirName, A]) = Some Dir \<Longrightarrow>
   GetAccountDir A w =
     (Inr (Join dir [AccountsDirName, A]),
      logcall (SysMkdirAll (Join dir [AccountsDirName, A])) (logcall (SysMkdirAll dir) w))"
  by (simp add: GetAccountDir_def GetConfigDir_again os_MkdirAll_def mkdirAll_idem Let_def logcall_def)

lemma GetAccountDir_dirs:
  assumes "GetAccountDir A w = (Inr ad, w2)" and "configDir w = Inr dir"
  shows "lookup (files w2) dir = Some Dir" and "lookup (files w2) ad = Some Dir"
    and "configDir w2 = Inr dir" and "ad = Join dir [AccountsDirName, A]"
    and "lookup (files w2) q = Some (File b) \<longleftrightarrow> lookup (files w) q = Some (File b)"
proof -
  from GetAccountDir_ok[OF assms(1)] assms(2) obtain fs1 fs2 where
    ad: "ad = Join dir [AccountsDirName, A]" and m1: "mkdirAll dir (files w) = Inr fs1"
    and m2: "mkdirAll ad fs1 = Inr fs2"
    and w2: "w2 = logcall (SysMkdirAll ad) (logcall (SysMkdirAll dir) (w\<lparr>files := fs2\<rparr>))"
    by auto
  from w2 have f: "files w2 = fs2" by simp
  from m1 have "lookup fs1 dir = Some Dir" by (rule mkdirAll_dir)
  with m2 show "lookup (files w2) dir = Some Dir" unfolding f by (rule mkdirAll_keep)
  from m2 show "lookup (files w2) ad = Some Dir" unfolding f by (rule mkdirAll_dir)
  from w2 assms(2) show "configDir w2 = Inr dir" by simp
  show "ad = Join dir [AccountsDirName, A]" by (rule ad)
  show "lookup (files w2) q = Some (File b) \<longleftrightarrow> lookup (files w) q = Some (File b)"
    unfolding f using mkdirAll_file_iff[OF m1] mkdirAll_file_iff[OF m2] by simp
qed

text \<open>
  Claim C6. When \<open>SaveTokenForAccount A T\<close> has succeeded (which it does only for a valid
  account name) and the JSON codec reads back what it writes for \<open>T\<close>, the
  \<open>LoadTokenForAccount A\<close> that follows succeeds and returns \<open>T\<close>, equal in all four
  serialised fields.
\<close>

theorem token_round_trip:
  assumes codec: "\<And>bytes. Encode J T = Inr bytes \<Longrightarrow> Decode J bytes = Inr T"
    and save: "SaveTokenForAccount J A T w = (None, w1)"
  shows "validateAccountName A = None \<and> fst (LoadTokenForAccount J A w1) = Inr T"
proof -
  from save obtain ad w2 where g: "GetAccountDir A w = (Inr ad, w2)"
    by (auto simp: SaveTokenForAccount_def split: prod.splits sum.splits)
  from GetAccountDir_ok[OF g] obtain dir where valid: "validateAccountName A = None"
    and cd: "configDir w = Inr dir" by blast
  note d = GetAccountDir_dirs[OF g cd]
  let ?tp = "Join ad [TokenFileName]"
  from save g obtain bytes where cr: "creatable (files w2) ?tp = None"
    and enc: "Encode J T = Inr bytes"
    and w1: "w1 = file_Write ?tp bytes (logcall (SysCreate ?tp) (w2\<lparr>files := (?tp, File []) # files w2\<rparr>))"
    by (auto simp: SaveTokenForAccount_def os_Create_def split: prod.splits sum.splits option.splits)
  from cr have nd: "lookup (files w2) ?tp \<noteq> Some Dir"
    by (auto simp: creatable_def split: if_splits)
  then have tne: "?tp \<noteq> []" by (auto simp: lookup_def)
  from nd d(1) have t1: "?tp \<noteq> dir" by auto
  from nd d(2) have t2: "?tp \<noteq> ad" by auto
  have f1: "files w1 = (?tp, File bytes) # (?tp, File []) # files w2"
    unfolding w1 by (simp add: file_Write_def)
  have c1: "configDir w1 = Inr dir" unfolding w1 using d(3) by (simp add: file_Write_def)
  have l1: "lookup (files w1) dir = Some Dir" unfolding f1 using d(1) t1 by (simp add: lookup_Cons)
  have l2: "lookup (files w1) (Join dir [AccountsDirName, A]) = Some Dir"
    unfolding f1 using d(2) t2 d(4) by (simp add: lookup_Cons)
  have l3: "lookup (files w1) ?tp = Some (File bytes)" unfolding f1 using tne by (simp add: lookup_Cons)
  from codec[OF enc] have dec: "Decode J bytes = Inr T" .
  have "fst (LoadTokenForAccount J A w1) = Inr T"
    unfolding LoadTokenForAccount_def GetAccountDir_again[OF valid c1 l1 l2]
    using l3 dec d(4) by (simp add: os_Open_def file_ReadAll_def)
  with valid show ?thesis by simp
qed


text \<open>Saving the sample token in the empty sample world, and loading it.\<close>

theorem token_round_trip_witness:
  "fst (SaveTokenForAccount sample_json ''a@x.com'' sample_token sample_world) = None
   \<and> validateAccountName ''a@x.com'' = None
   \<and> fst (LoadTokenForAccount sample_json ''a@x.com'' one_account_world) = Inr sample_token"
proof -
  have e: "Encode sample_json sample_token = Inr (''ya29.a0'' @ [CHR 0x0A] @ ''Bearer'' @ [CHR 0x0A] @ ''1//0g'' @ [CHR 0x0A] @ ''III'')"
    by code_simp
  have d: "Decode sample_json (''ya29.a0'' @ [CHR 0x0A] @ ''Bearer'' @ [CHR 0x0A] @ ''1//0g'' @ [CHR 0x0A] @ ''III'') = Inr sample_token"
    by code_simp
  have codec: "Decode sample_json bytes = Inr sample_token"
    if "Encode sample_json sample_token = Inr bytes" for bytes
    using that e d by simp
  have s: "fst (SaveTokenForAccount sample_json ''a@x.com'' sample_token sample_world) = None"
    by code_simp
  then have save: "SaveTokenForAccount sample_json ''a@x.com'' sample_token sample_world = (None, one_account_world)"
    unfolding one_account_world_def by (metis prod.collapse)
  from token_round_trip[OF codec save] s show ?thesis by simp
qed

lemma os_ReadFile_fst:
  "fst (os_ReadFile p w) = (case lookup (files w) p of
        None \<Rightarrow> Inl (PathError ''open'' p (missing_errno (files w) p))
      | Some Dir \<Rightarrow> Inl (PathError ''read'' p EISDIR)
      | Some (File bytes) \<Rightarrow> Inr bytes)"
  and os_ReadFile_snd: "snd (os_ReadFile p w) = logcall (SysReadFile p) w"
  by (auto simp: os_ReadFile_def split: option.splits node.splits)

lemma is_file_iff: "is_file n \<longleftrightarrow> (\<exists>b. n = Some (File b))"
  by (auto simp: is_file_def split: option.splits node.splits)

text \<open>
  Claim C8. For an account whose directory \<open>GetAccountDir\<close> can provide (so a valid name),
  with \<open>dir\<close> the configuration directory and \<open>ad\<close> the account's directory:
  \<open>LoadSecretsForAccount\<close> returns the bytes of the secrets file in \<open>ad\<close> when that file is
  there; when it is not, the bytes of the secrets file in \<open>dir\<close> when that one is there; and
  it fails exactly when neither is a file.
\<close>

theorem LoadSecretsForAccount_order:
  assumes g: "GetAccountDir A w = (Inr ad, w1)" and cd: "configDir w = Inr dir"
  shows "validateAccountName A = None
     \<and> ad = Join dir [AccountsDirName, A]
     \<and> (\<forall>b. lookup (files w) (Join ad [SecretsFileName]) = Some (File b) \<longrightarrow>
            fst (LoadSecretsForAccount A w) = Inr b)
     \<and> (\<not> is_file (lookup (files w) (Join ad [SecretsFileName])) \<longrightarrow>
          (\<forall>b. lookup (files w) (Join dir [SecretsFileName]) = Some (File b) \<longrightarrow>
            fst (LoadSecretsForAccount A w) = Inr b))
     \<and> (isl (fst (LoadSecretsForAccount A w)) \<longleftrightarrow>
          \<not> is_file (lookup (files w) (Join ad [SecretsFileName]))
        \<and> \<not> is_file (lookup (files w) (Join dir [SecretsFileName])))"
proof -
  note d = GetAccountDir_dirs[OF g cd]
  let ?pa = "Join ad [SecretsFileName]"
  let ?sh = "Join dir [SecretsFileName]"
  let ?w2 = "logcall (SysReadFile ?pa) w1"
  have fpa: "lookup (files w1) ?pa = Some (File b) \<longleftrightarrow> lookup (files w) ?pa = Some (File b)" for b
    by (rule d(5))
  have fsh: "lookup (files w1) ?sh = Some (File b) \<longleftrightarrow> lookup (files w) ?sh = Some (File b)" for b
    by (rule d(5))
  have ls: "LoadSecrets ?w2 = os_ReadFile ?sh (logcall (SysMkdirAll dir) ?w2)"
    using d(1) d(3) by (simp add: LoadSecrets_def GetConfigDir_again)
  have hit: "fst (LoadSecretsForAccount A w) = Inr b" if "lookup (files w) ?pa = Some (File b)" for b
    using that fpa[of b] g by (simp add: LoadSecretsForAccount_def os_ReadFile_def)
  have miss: "fst (LoadSecretsForAccount A w) = fst (os_ReadFile ?sh (logcall (SysMkdirAll dir) ?w2))"
    if "\<not> is_file (lookup (files w) ?pa)"
  proof -
    from that fpa have "\<nexists>b. lookup (files w1) ?pa = Some (File b)" by (simp add: is_file_iff)
    then have "os_ReadFile ?pa w1 = (fst (os_ReadFile ?pa w1), ?w2) \<and> isl (fst (os_ReadFile ?pa w1))"
      by (auto simp: os_ReadFile_def split: option.splits node.splits)
    then obtain e where "os_ReadFile ?pa w1 = (Inl e, ?w2)"
      by (cases "fst (os_ReadFile ?pa w1)") auto
    then show ?thesis using g ls by (simp add: LoadSecretsForAccount_def)
  qed
  have shared: "fst (LoadSecretsForAccount A w) = Inr b"
    if "\<not> is_file (lookup (files w) ?pa)" and "lookup (files w) ?sh = Some (File b)" for b
    using miss[OF that(1)] that(2) fsh[of b] by (simp add: os_ReadFile_fst)
  have fails: "isl (fst (LoadSecretsForAccount A w))"
    if "\<not> is_file (lookup (files w) ?pa)" and "\<not> is_file (lookup (files w) ?sh)"
  proof -
    from that(2) fsh have "\<nexists>b. lookup (files w1) ?sh = Some (File b)" by (simp add: is_file_iff)
    then show ?thesis using miss[OF that(1)]
      by (auto simp: os_ReadFile_fst split: option.splits node.splits)
  qed
  have only: "\<not> is_file (lookup (files w) ?pa) \<and> \<not> is_file (lookup (files w) ?sh)"
    if il: "isl (fst (LoadSecretsForAccount A w))"
  proof (intro conjI notI)
    assume "is_file (lookup (files w) ?pa)"
    then obtain b where "lookup (files w) ?pa = Some (File b)" by (auto simp: is_file_iff)
    from hit[OF this] il show False by simp
  next
    assume sf: "is_file (lookup (files w) ?sh)"
    then obtain b where b: "lookup (files w) ?sh = Some (File b)" by (auto simp: is_file_iff)
    show False
    proof (cases "is_file (lookup (files w) ?pa)")
      case True
      then obtain c where "lookup (files w) ?pa = Some (File c)" by (auto simp: is_file_iff)
      from hit[OF this] il show False by simp
    next
      case False
      from shared[OF False b] il show False by simp
    qed
  qed
  from GetAccountDir_ok[OF g] have "validateAccountName A = None" by blast
  with d(4) hit shared fails only show ?thesis by blast
qed


text \<open>An account with its own secrets file, one with the shared file only, one with
  neither.\<close>

theorem LoadSecretsForAccount_order_witness:
  "fst (LoadSecretsForAccount ''a@x.com'' override_secrets_world) = Inr ''{override}''
   \<and> fst (LoadSecretsForAccount ''a@x.com'' shared_secrets_world) = Inr ''{shared}''
   \<and> isl (fst (LoadSecretsForAccount ''a@x.com'' one_account_world))"
proof -
  define dir where "dir = [''home'', ''user'', ''.go-google-mcp'']"
  define ad where "ad = [''home'', ''user'', ''.go-google-mcp'', ''accounts'', ''a@x.com'']"
  have j1: "Join ad [SecretsFileName] = ad @ [''client_secrets.json'']" unfolding ad_def by code_simp
  have j2: "Join dir [SecretsFileName] = dir @ [''client_secrets.json'']" unfolding dir_def by code_simp
  have g: "GetAccountDir ''a@x.com'' W = (Inr ad, snd (GetAccountDir ''a@x.com'' W))"
    if "fst (GetAccountDir ''a@x.com'' W) = Inr ad" for W
    using that by (metis prod.collapse)
  have g1: "fst (GetAccountDir ''a@x.com'' override_secrets_world) = Inr ad" unfolding ad_def by code_simp
  have g2: "fst (GetAccountDir ''a@x.com'' shared_secrets_world) = Inr ad" unfolding ad_def by code_simp
  have g3: "fst (GetAccountDir ''a@x.com'' one_account_world) = Inr ad" unfolding ad_def by code_simp
  have c1: "configDir override_secrets_world = Inr dir" unfolding dir_def by code_simp
  have c2: "configDir shared_secrets_world = Inr dir" unfolding dir_def by code_simp
  have c3: "configDir one_account_world = Inr dir" unfolding dir_def by code_simp
  have l1: "lookup (files override_secrets_world) (ad @ [''client_secrets.json'']) = Some (File ''{override}'')"
    unfolding ad_def by code_simp
  have l2: "\<not> is_file (lookup (files shared_secrets_world) (ad @ [''client_secrets.json'']))"
    unfolding ad_def by code_simp
  have l2': "lookup (files shared_secrets_world) (dir @ [''client_secrets.json'']) = Some (File ''{shared}'')"
    unfolding dir_def by code_simp
  have l3: "\<not> is_file (lookup (files one_account_world) (ad @ [''client_secrets.json'']))"
    unfolding ad_def by code_simp
  have l3': "\<not> is_file (lookup (files one_account_world) (dir @ [''client_secrets.json'']))"
    unfolding dir_def by code_simp
  have a: "fst (LoadSecretsForAccount ''a@x.com'' override_secrets_world) = Inr ''{override}''"
    using LoadSecretsForAccount_order[OF g[OF g1] c1] l1 unfolding j1 j2 by blast
  have b: "fst (LoadSecretsForAccount ''a@x.com'' shared_secrets_world) = Inr ''{shared}''"
    using LoadSecretsForAccount_order[OF g[OF g2] c2] l2 l2' unfolding j1 j2 by blast
  have c: "isl (fst (LoadSecretsForAccount ''a@x.com'' one_account_world))"
    using LoadSecretsForAccount_order[OF g[OF g3] c3] l3 l3' unfolding j1 j2 by blast
  from a b c show ?thesis by blast
qed

lemma Contains_sublist: "Contains s sub \<longleftrightarrow> sublist sub s"
  by (induction s) (auto simp: sublist_Cons_right)

lemma sublist_single: "sublist [c] s \<longleftrightarrow> c \<in> set s"
proof
  assume "sublist [c] s"
  then show "c \<in> set s" by (auto simp: sublist_def)
next
  assume "c \<in> set s"
  then obtain ps ss where "s = ps @ c # ss" by (meson split_list)
  then have "s = ps @ [c] @ ss" by simp
  then show "sublist [c] s" unfolding sublist_def by blast
qed

lemma validateAccountName_unsafe:
  assumes "sublist ''..'' A \<or> CHR ''/'' \<in> set A \<or> CHR 0x5C \<in> set A \<or> CHR 0x00 \<in> set A"
  shows "\<exists>msg. validateAccountName A = Some (Errorf msg)"
proof -
  from assms have "A \<noteq> []" by auto
  moreover from assms have "Contains A ''..'' \<or> Contains A ''/'' \<or> Contains A [CHR 0x5C] \<or> Contains A [CHR 0x00]"
    unfolding Contains_sublist sublist_single by simp
  ultimately show ?thesis by (simp add: validateAccountName_def)
qed

text \<open>
  Claim C5, as amended. For an account name that contains \<^verbatim>\<open>..\<close>, a slash, a backslash or a
  NUL byte, \<open>validateAccountName\<close> returns an error, and \<open>GetAccountDir\<close>,
  \<open>SaveTokenForAccount\<close>, \<open>LoadTokenForAccount\<close> and \<open>LoadSecretsForAccount\<close> return that error
  with the world untouched: no call into the file system has been made.
  \<open>SaveSecretsForAccount\<close> first reads the source file the caller named; it returns the error
  of that read when it fails and the validation error otherwise, and in both cases that
  read is its only call into the file system and the file system is unchanged. No
  operation reaches a path made from the account name.
\<close>

theorem unsafe_account_rejected:
  assumes unsafe: "sublist ''..'' A \<or> CHR ''/'' \<in> set A \<or> CHR 0x5C \<in> set A \<or> CHR 0x00 \<in> set A"
  shows "\<exists>msg. validateAccountName A = Some (Errorf msg)
     \<and> GetAccountDir A w = (Inl (Errorf msg), w)
     \<and> SaveTokenForAccount J A T w = (Some (Errorf msg), w)
     \<and> LoadTokenForAccount J A w = (Inl (Errorf msg), w)
     \<and> LoadSecretsForAccount A w = (Inl (Errorf msg), w)
     \<and> SaveSecretsForAccount A srcPath w =
         (case fst (os_ReadFile (path_of srcPath) w) of
            Inl e \<Rightarrow> (Some e, logcall (SysReadFile (path_of srcPath)) w)
          | Inr content \<Rightarrow> (Some (Errorf msg), logcall (SysReadFile (path_of srcPath)) w))
     \<and> files (snd (SaveSecretsForAccount A srcPath w)) = files w
     \<and> trace (snd (SaveSecretsForAccount A srcPath w)) = trace w @ [SysReadFile (path_of srcPath)]"
proof -
  from validateAccountName_unsafe[OF unsafe] obtain msg where v: "validateAccountName A = Some (Errorf msg)"
    by blast
  then have g: "GetAccountDir A w' = (Inl (Errorf msg), w')" for w'
    by (simp add: GetAccountDir_def)
  have s: "SaveSecretsForAccount A srcPath w =
         (case fst (os_ReadFile (path_of srcPath) w) of
            Inl e \<Rightarrow> (Some e, logcall (SysReadFile (path_of srcPath)) w)
          | Inr content \<Rightarrow> (Some (Errorf msg), logcall (SysReadFile (path_of srcPath)) w))"
    by (auto simp: SaveSecretsForAccount_def g os_ReadFile_def split: option.splits node.splits)
  have "files (snd (SaveSecretsForAccount A srcPath w)) = files w"
    and "trace (snd (SaveSecretsForAccount A srcPath w)) = trace w @ [SysReadFile (path_of srcPath)]"
    unfolding s by (auto simp: logcall_def split: sum.splits)
  with v g s show ?thesis
    by (auto simp: SaveTokenForAccount_def LoadTokenForAccount_def LoadSecretsForAccount_def)
qed

text \<open>The name \<^verbatim>\<open>../evil\<close> in the empty sample world.\<close>

theorem unsafe_account_rejected_witness:
  "snd (GetAccountDir ''../evil'' sample_world) = sample_world
   \<and> isl (fst (GetAccountDir ''../evil'' sample_world))
   \<and> SaveTokenForAccount sample_json ''../evil'' sample_token sample_world
       = (validateAccountName ''../evil'', sample_world)
   \<and> snd (LoadSecretsForAccount ''../evil'' sample_world) = sample_world
   \<and> isl (fst (LoadSecretsForAccount ''../evil'' sample_world))
   \<and> snd (LoadTokenForAccount sample_json ''../evil'' sample_world) = sample_world
   \<and> isl (fst (LoadTokenForAccount sample_json ''../evil'' sample_world))
   \<and> files (snd (SaveSecretsForAccount ''../evil'' ''/tmp/cs.json'' sample_world)) = []
   \<and> trace (snd (SaveSecretsForAccount ''../evil'' ''/tmp/cs.json'' sample_world)) = [SysReadFile [''tmp'', ''cs.json'']]"
proof -
  have u: "sublist ''..'' ''../evil'' \<or> CHR ''/'' \<in> set ''../evil'' \<or> CHR 0x5C \<in> set ''../evil'' \<or> CHR 0x00 \<in> set ''../evil''"
    by simp
  have p: "path_of ''/tmp/cs.json'' = [''tmp'', ''cs.json'']" by code_simp
  have f: "files sample_world = []" "trace sample_world = []" by (simp_all add: sample_world_def)
  from unsafe_account_rejected[OF u, of sample_world sample_json sample_token "''/tmp/cs.json''"]
  show ?thesis unfolding p f
    by (auto simp: )
qed

text \<open>
  Claim C5 as stated fails for \<open>SaveSecretsForAccount\<close>: with the unsafe name \<^verbatim>\<open>../evil\<close> and
  a source file that does not exist it returns the error of the read, not a validation
  error; with a source file that exists it returns the validation error after having
  read the file.
\<close>

theorem SaveSecretsForAccount_reads_first:
  "sublist ''..'' ''../evil''
   \<and> fst (SaveSecretsForAccount ''../evil'' ''/tmp/cs.json'' sample_world)
       = Some (PathError ''open'' [''tmp'', ''cs.json''] ENOENT)
   \<and> fst (SaveSecretsForAccount ''../evil'' ''/tmp/cs.json'' sample_world) \<noteq> validateAccountName ''../evil''
   \<and> trace (snd (SaveSecretsForAccount ''../evil'' ''/tmp/cs.json'' sample_world))
       = [SysReadFile [''tmp'', ''cs.json'']]
   \<and> fst (SaveSecretsForAccount ''../evil'' ''/tmp/cs.json''
          (sample_world\<lparr>files := [([''tmp'', ''cs.json''], File ''{}''), ([''tmp''], Dir)]\<rparr>))
       = validateAccountName ''../evil''
   \<and> trace (snd (SaveSecretsForAccount ''../evil'' ''/tmp/cs.json''
          (sample_world\<lparr>files := [([''tmp'', ''cs.json''], File ''{}''), ([''tmp''], Dir)]\<rparr>)))
       = [SysReadFile [''tmp'', ''cs.json'']]"
  by code_simp

subsection \<open>The login flow\<close>

lemma Login_Done:
  assumes "ConfigFromJSON oa clientSecrets scs = Inr config"
    and "generateStateToken oa = Inr stateToken"
    and "''/callback'' \<notin> set (mux p)"
  shows "Login oa J (Done e) clientSecrets scs p
     = (Returned (Some e), p\<lparr>mux := mux p @ [''/callback''], world := (world p)\<lparr>listener := Listening\<rparr>\<rparr>)"
  using assms by (simp add: Login_def Let_def)

text \<open>
  Claim C9. When the caller's context ends before anything arrives on the callback route,
  \<open>Login\<close> returns the context's error and writes nothing, as the claim says; but it
  returns from the \<^verbatim>\<open>select\<close> without shutting the server down, so the listener that the
  goroutine opened is still listening. Evaluated for a cancelled context in the sample
  world.
\<close>

theorem Login_cancelled_listener_open:
  "Login sample_oauth sample_json (Done Canceled) ''{secrets}'' login_scopes
      \<lparr>world = sample_world, mux = []\<rparr>
   = (Returned (Some Canceled),
      \<lparr>world = sample_world\<lparr>listener := Listening\<rparr>, mux = [''/callback'']\<rparr>)
   \<and> files (sample_world\<lparr>listener := Listening\<rparr>) = files sample_world
   \<and> trace (sample_world\<lparr>listener := Listening\<rparr>) = trace sample_world
   \<and> listener (sample_world\<lparr>listener := Listening\<rparr>) \<noteq> ShutDown"
proof -
  have c: "ConfigFromJSON sample_oauth ''{secrets}'' login_scopes = Inr ''{secrets}''"
    by (simp add: sample_oauth_def)
  have t: "generateStateToken sample_oauth = Inr (replicate 32 CHR ''r'')"
    by (simp add: generateStateToken_def sample_oauth_def)
  have m: "''/callback'' \<notin> set (mux \<lparr>world = sample_world, mux = []\<rparr>)" by simp
  from Login_Done[OF c t m, of sample_json Canceled] show ?thesis by simp
qed

subsection \<open>Paths, directory listings and well-formed file systems\<close>

lemma split_on_notin: "d \<notin> set s \<Longrightarrow> split_on d s = [s]"
  by (induction s) auto

lemma splitSep_name: "valid_name n \<Longrightarrow> splitSep n = [n]"
  by (simp add: splitSep_def valid_name_def split_on_notin)

lemma cleanOnto_names: "list_all valid_name ns \<Longrightarrow> cleanOnto acc ns = rev acc @ ns"
  by (induction ns arbitrary: acc) (auto simp: valid_name_def)

lemma Join_names: "list_all valid_name ns \<Longrightarrow> Join dir ns = dir @ ns"
proof -
  assume v: "list_all valid_name ns"
  then have "concat (map splitSep ns) = ns"
    by (induction ns) (simp_all add: splitSep_name)
  with v show ?thesis by (simp add: Join_def cleanOnto_names)
qed

lemma valid_fixed_names [simp]:
  "valid_name AccountsDirName" "valid_name TokenFileName" "valid_name SecretsFileName"
  by (simp_all add: valid_name_def AccountsDirName_def TokenFileName_def SecretsFileName_def)

lemma children_set:
  "set (children fs p) = {last q |q. q \<in> fst ` set fs \<and> q \<noteq> [] \<and> butlast q = p}"
  by (force simp: children_def)

lemma children_eq:
  "children fs p = sorted_list_of_set {last q |q. q \<in> fst ` set fs \<and> q \<noteq> [] \<and> butlast q = p}"
proof -
  have "children fs p = sorted_list_of_set (set (map (\<lambda>(q, n). last q) (filter (\<lambda>(q, n). q \<noteq> [] \<and> butlast q = p) fs)))"
    unfolding children_def by (simp only: sorted_list_of_set_sort_remdups)
  also have "set (map (\<lambda>(q, n). last q) (filter (\<lambda>(q, n). q \<noteq> [] \<and> butlast q = p) fs))
      = {last q |q. q \<in> fst ` set fs \<and> q \<noteq> [] \<and> butlast q = p}"
    by force
  finally show ?thesis .
qed

lemma children_cong:
  assumes "\<And>q. q \<noteq> [] \<Longrightarrow> butlast q = p \<Longrightarrow> (q \<in> fst ` set fs' \<longleftrightarrow> q \<in> fst ` set fs)"
  shows "children fs' p = children fs p"
proof -
  have "{last q |q. q \<in> fst ` set fs' \<and> q \<noteq> [] \<and> butlast q = p}
      = {last q |q. q \<in> fst ` set fs \<and> q \<noteq> [] \<and> butlast q = p}"
    using assms by blast
  then show ?thesis by (simp add: children_eq)
qed

lemma children_lookup:
  "n \<in> set (children fs p) \<longleftrightarrow> lookup fs (p @ [n]) \<noteq> None"
proof -
  have "lookup fs (p @ [n]) \<noteq> None \<longleftrightarrow> p @ [n] \<in> fst ` set fs"
    by (simp add: lookup_def map_of_eq_None_iff)
  also have "\<dots> \<longleftrightarrow> n \<in> {last q |q. q \<in> fst ` set fs \<and> q \<noteq> [] \<and> butlast q = p}"
  proof
    assume "p @ [n] \<in> fst ` set fs"
    then show "n \<in> {last q |q. q \<in> fst ` set fs \<and> q \<noteq> [] \<and> butlast q = p}"
      by (intro CollectI exI[of _ "p @ [n]"]) simp
  next
    assume "n \<in> {last q |q. q \<in> fst ` set fs \<and> q \<noteq> [] \<and> butlast q = p}"
    then obtain q where "n = last q" "q \<in> fst ` set fs" "q \<noteq> []" "butlast q = p" by blast
    then show "p @ [n] \<in> fst ` set fs" by (metis append_butlast_last_id)
  qed
  finally show ?thesis by (simp add: children_set)
qed

lemma wf_fs_names:
  assumes "wf_fs fs" and "lookup fs (p @ [n]) \<noteq> None"
  shows "valid_name n"
proof -
  from assms(2) obtain x where "map_of fs (p @ [n]) = Some x" by (auto simp: lookup_def)
  then have "(p @ [n], x) \<in> set fs" by (rule map_of_SomeD)
  with assms(1) have "list_all valid_name (p @ [n])" by (auto simp: wf_fs_def list_all_iff)
  then show ?thesis by simp
qed

lemma wf_fs_parent:
  assumes "wf_fs fs" and "lookup fs p \<noteq> None"
  shows "lookup fs (butlast p) = Some Dir"
proof (cases "p = []")
  case True
  then show ?thesis by (simp add: lookup_def)
next
  case False
  with assms(2) obtain x where "map_of fs p = Some x" by (auto simp: lookup_def)
  then have "(p, x) \<in> set fs" by (rule map_of_SomeD)
  with assms(1) show ?thesis by (auto simp: wf_fs_def list_all_iff)
qed

lemma wf_fs_prefix:
  assumes wf: "wf_fs fs"
  shows "lookup fs (q @ r) \<noteq> None \<Longrightarrow> r \<noteq> [] \<Longrightarrow> lookup fs q = Some Dir"
proof (induction r rule: rev_induct)
  case Nil
  then show ?case by simp
next
  case (snoc x xs)
  from wf_fs_parent[OF wf snoc.prems(1)] have par: "lookup fs (q @ xs) = Some Dir"
    by (simp add: butlast_append)
  show ?case
  proof (cases "xs = []")
    case True
    with par show ?thesis by simp
  next
    case False
    with snoc.IH par show ?thesis by simp
  qed
qed

lemma no_file_prefix:
  assumes wf: "wf_fs fs" and d: "lookup fs dir = Some Dir" and m: "lookup fs (dir @ [n]) = None"
  shows "missing_errno fs (dir @ [n]) = ENOENT"
proof -
  have "\<not> is_file (lookup fs q)" if "q \<in> set (prefixes (dir @ [n]))" for q
  proof -
    from that have "prefix q (dir @ [n])" by simp
    then consider "q = dir @ [n]" | "prefix q dir" by (auto simp: prefix_snoc)
    then show ?thesis
    proof cases
      case 1
      with m show ?thesis by (simp add: is_file_def)
    next
      case 2
      then obtain r where r: "dir = q @ r" by (auto simp: prefix_def)
      show ?thesis
      proof (cases "r = []")
        case True
        with r d show ?thesis by (simp add: is_file_def)
      next
        case False
        from wf_fs_prefix[OF wf _ False, of q] d r have "lookup fs q = Some Dir" by simp
        then show ?thesis by (simp add: is_file_def)
      qed
    qed
  qed
  then show ?thesis by (simp add: missing_errno_def list_ex_iff)
qed

lemma os_Stat_snd [simp]: "snd (os_Stat p w) = logcall (SysStat p) w"
  by (simp add: os_Stat_def split: option.splits)

lemma os_Stat_isl: "isl (fst (os_Stat p w)) \<longleftrightarrow> lookup (files w) p = None"
  by (simp add: os_Stat_def split: option.splits)

lemma IsMultiAccount_range_fst:
  "fst (IsMultiAccount_range ad es w)
     = list_ex (\<lambda>e. IsDir e \<and> lookup (files w) (Join ad [Name e, TokenFileName]) \<noteq> None) es"
proof (induction es arbitrary: w)
  case Nil
  then show ?case by simp
next
  case (Cons e es)
  obtain r w1 where st: "os_Stat (Join ad [Name e, TokenFileName]) w = (r, w1)"
    by (cases "os_Stat (Join ad [Name e, TokenFileName]) w")
  from st have w1: "w1 = logcall (SysStat (Join ad [Name e, TokenFileName])) w"
    by (metis os_Stat_snd snd_conv)
  from st have r: "isl r \<longleftrightarrow> lookup (files w) (Join ad [Name e, TokenFileName]) = None"
    by (metis os_Stat_isl fst_conv)
  show ?case
  proof (cases r)
    case (Inl a)
    with st r w1 Cons.IH[of w1] Cons.IH[of w] show ?thesis by simp
  next
    case (Inr b)
    with st r Cons.IH[of w] show ?thesis by simp
  qed
qed

lemma ListAccounts_range_fst:
  "fst (ListAccounts_range ad es acc w)
     = acc @ map Name (filter (\<lambda>e. IsDir e \<and> lookup (files w) (Join ad [Name e, TokenFileName]) \<noteq> None) es)"
proof (induction es arbitrary: w acc)
  case Nil
  then show ?case by simp
next
  case (Cons e es)
  obtain r w1 where st: "os_Stat (Join ad [Name e, TokenFileName]) w = (r, w1)"
    by (cases "os_Stat (Join ad [Name e, TokenFileName]) w")
  from st have w1: "w1 = logcall (SysStat (Join ad [Name e, TokenFileName])) w"
    by (metis os_Stat_snd snd_conv)
  from st have r: "isl r \<longleftrightarrow> lookup (files w) (Join ad [Name e, TokenFileName]) = None"
    by (metis os_Stat_isl fst_conv)
  show ?case
  proof (cases r)
    case (Inl a)
    with st r w1 Cons.IH[of acc w1] Cons.IH[of acc w] show ?thesis by simp
  next
    case (Inr b)
    with st r w1 Cons.IH[of "acc @ [Name e]" w1] Cons.IH[of acc w] show ?thesis by simp
  qed
qed

lemma entries_filter:
  "map Name (filter (\<lambda>e. IsDir e \<and> lookup fs (Join ad [Name e, TokenFileName]) \<noteq> None)
      (map (\<lambda>n. \<lparr>Name = n, IsDir = (lookup fs (ad @ [n]) = Some Dir)\<rparr>) ns))
   = filter (\<lambda>n. lookup fs (ad @ [n]) = Some Dir \<and> lookup fs (Join ad [n, TokenFileName]) \<noteq> None) ns"
  by (induction ns) auto

lemma entries_ex:
  "list_ex (\<lambda>e. IsDir e \<and> lookup fs (Join ad [Name e, TokenFileName]) \<noteq> None)
      (map (\<lambda>n. \<lparr>Name = n, IsDir = (lookup fs (ad @ [n]) = Some Dir)\<rparr>) ns)
   \<longleftrightarrow> filter (\<lambda>n. lookup fs (ad @ [n]) = Some Dir \<and> lookup fs (Join ad [n, TokenFileName]) \<noteq> None) ns \<noteq> []"
  by (induction ns) auto

text \<open>What \<open>ListAccounts\<close> and \<open>IsMultiAccount\<close> return, from the file system that
  \<open>GetConfigDir\<close> leaves.\<close>

lemma ListAccounts_fst:
  assumes "GetConfigDir w = (Inr dir, w1)"
  shows "fst (ListAccounts w) =
     (case lookup (files w1) (dir @ [AccountsDirName]) of
        None \<Rightarrow>
          (if missing_errno (files w1) (dir @ [AccountsDirName]) = ENOENT then Inr []
           else Inl (PathError ''open'' (dir @ [AccountsDirName]) (missing_errno (files w1) (dir @ [AccountsDirName]))))
      | Some (File _) \<Rightarrow> Inl (PathError ''readdir'' (dir @ [AccountsDirName]) ENOTDIR)
      | Some Dir \<Rightarrow> Inr (token_dirs (files w1) (dir @ [AccountsDirName])))"
proof -
  have j: "Join dir [AccountsDirName] = dir @ [AccountsDirName]" by (simp add: Join_names)
  show ?thesis
  proof (cases "lookup (files w1) (dir @ [AccountsDirName])")
    case None
    then show ?thesis using assms
      by (cases "missing_errno (files w1) (dir @ [AccountsDirName])")
         (simp_all add: ListAccounts_def j os_ReadDir_def Let_def)
  next
    case (Some n)
    show ?thesis
    proof (cases n)
      case (File b)
      with Some assms show ?thesis by (simp add: ListAccounts_def j os_ReadDir_def Let_def)
    next
      case Dir
      with Some assms
        entries_filter[of "files w1" "dir @ [AccountsDirName]" "children (files w1) (dir @ [AccountsDirName])"]
      show ?thesis
        by (simp add: ListAccounts_def j os_ReadDir_def ListAccounts_range_fst
              token_dirs_def Let_def case_prod_beta)
    qed
  qed
qed


lemma IsMultiAccount_fst:
  assumes "GetConfigDir w = (Inr dir, w1)"
  shows "fst (IsMultiAccount w) =
     (case lookup (files w1) (dir @ [AccountsDirName]) of
        None \<Rightarrow>
          (if missing_errno (files w1) (dir @ [AccountsDirName]) = ENOENT then (False, None)
           else (False, Some (PathError ''open'' (dir @ [AccountsDirName])
                               (missing_errno (files w1) (dir @ [AccountsDirName])))))
      | Some (File _) \<Rightarrow> (False, Some (PathError ''readdir'' (dir @ [AccountsDirName]) ENOTDIR))
      | Some Dir \<Rightarrow> (token_dirs (files w1) (dir @ [AccountsDirName]) \<noteq> [], None))"
proof -
  have j: "Join dir [AccountsDirName] = dir @ [AccountsDirName]" by (simp add: Join_names)
  show ?thesis
  proof (cases "lookup (files w1) (dir @ [AccountsDirName])")
    case None
    then show ?thesis using assms
      by (cases "missing_errno (files w1) (dir @ [AccountsDirName])")
         (simp_all add: IsMultiAccount_def j os_ReadDir_def Let_def)
  next
    case (Some n)
    show ?thesis
    proof (cases n)
      case (File b)
      with Some assms show ?thesis by (simp add: IsMultiAccount_def j os_ReadDir_def Let_def)
    next
      case Dir
      with Some assms
        entries_ex[of "files w1" "dir @ [AccountsDirName]" "children (files w1) (dir @ [AccountsDirName])"]
      show ?thesis
        by (simp add: IsMultiAccount_def j os_ReadDir_def IsMultiAccount_range_fst
              token_dirs_def Let_def case_prod_beta)
    qed
  qed
qed

lemma mkdirAll_below:
  assumes "mkdirAll dir fs = Inr fs1" and "\<not> prefix q dir"
  shows "lookup fs1 q = lookup fs q"
proof -
  from mkdirAll_new[OF assms(1)] obtain new where new: "fs1 = new @ fs"
    and all: "\<forall>x\<in>set new. prefix (fst x) dir \<and> fst x \<noteq> [] \<and> snd x = Dir \<and> lookup fs (fst x) = None"
    by blast
  from all assms(2) have "\<forall>x\<in>set new. fst x \<noteq> q" by auto
  then show ?thesis unfolding new by (rule lookup_append_new)
qed

lemma mkdirAll_children:
  assumes "mkdirAll dir fs = Inr fs1" and "\<not> strict_prefix p dir"
  shows "children fs1 p = children fs p"
proof (rule children_cong)
  fix q :: path assume q: "q \<noteq> []" "butlast q = p"
  from mkdirAll_new[OF assms(1)] obtain new where new: "fs1 = new @ fs"
    and all: "\<forall>x\<in>set new. prefix (fst x) dir \<and> fst x \<noteq> [] \<and> snd x = Dir \<and> lookup fs (fst x) = None"
    by blast
  have "q \<notin> fst ` set new"
  proof
    assume "q \<in> fst ` set new"
    with all have "prefix q dir" by auto
    moreover from q have "strict_prefix p q"
      by (metis append_butlast_last_id strict_prefixI' )
    ultimately have "strict_prefix p dir" by (metis prefix_order.less_le_trans)
    with assms(2) show False by simp
  qed
  then show "q \<in> fst ` set fs1 \<longleftrightarrow> q \<in> fst ` set fs" unfolding new by auto
qed

lemma mkdirAll_prefixes_dir:
  "wf_fs fs \<Longrightarrow> mkdirAll p fs = Inr fs' \<Longrightarrow> prefix q p \<Longrightarrow> lookup fs' q = Some Dir"
proof (induction p fs arbitrary: fs' q rule: mkdirAll.induct)
  case (1 p fs)
  show ?case
  proof (cases "lookup fs p")
    case None
    with "1.prems"(2) obtain fs1 where rec: "mkdirAll (butlast p) fs = Inr fs1" and fs': "fs' = (p, Dir) # fs1"
      by (auto simp: mkdirAll.simps[of p fs] split: sum.splits)
    from None have ne: "p \<noteq> []" by (auto simp: lookup_def)
    show ?thesis
    proof (cases "q = p")
      case True
      with fs' ne show ?thesis by (simp add: lookup_Cons)
    next
      case False
      with "1.prems"(3) ne have "prefix q (butlast p)"
        by (metis append_butlast_last_id prefix_snoc)
      from "1.IH"[OF None "1.prems"(1) rec this] have "lookup fs1 q = Some Dir" .
      with fs' False show ?thesis by (simp add: lookup_Cons)
    qed
  next
    case (Some n)
    with "1.prems"(2) have same: "fs' = fs" and d: "lookup fs p = Some Dir"
      by (cases n; auto simp: mkdirAll.simps[of p fs])+
    from "1.prems"(3) obtain r where r: "p = q @ r" by (auto simp: prefix_def)
    show ?thesis
    proof (cases "r = []")
      case True
      with r d same show ?thesis by simp
    next
      case False
      from wf_fs_prefix[OF "1.prems"(1) _ False, of q] d r same show ?thesis by simp
    qed
  qed
qed

lemma has_token_dir_token_dirs:
  assumes wf: "wf_fs fs"
    and below: "\<And>q. prefix ad q \<Longrightarrow> q \<noteq> ad \<Longrightarrow> lookup fs1 q = lookup fs q"
    and ch: "children fs1 ad = children fs ad"
  shows "token_dirs fs1 ad \<noteq> [] \<longleftrightarrow> has_token_dir fs ad"
proof
  assume "token_dirs fs1 ad \<noteq> []"
  then obtain n where n: "n \<in> set (children fs1 ad)" "lookup fs1 (ad @ [n]) = Some Dir"
    "lookup fs1 (Join ad [n, TokenFileName]) \<noteq> None"
    by (auto simp: token_dirs_def filter_empty_conv)
  from n(2) below[of "ad @ [n]"] have d: "lookup fs (ad @ [n]) = Some Dir" by simp
  with wf have "valid_name n" by (auto intro: wf_fs_names)
  then have j: "Join ad [n, TokenFileName] = ad @ [n, TokenFileName]" by (simp add: Join_names)
  with n(3) below[of "ad @ [n, TokenFileName]"] have "lookup fs (ad @ [n, TokenFileName]) \<noteq> None" by simp
  with d show "has_token_dir fs ad" unfolding has_token_dir_def by blast
next
  assume "has_token_dir fs ad"
  then obtain n where d: "lookup fs (ad @ [n]) = Some Dir" and t: "lookup fs (ad @ [n, TokenFileName]) \<noteq> None"
    unfolding has_token_dir_def by blast
  from d wf have "valid_name n" by (auto intro: wf_fs_names)
  then have j: "Join ad [n, TokenFileName] = ad @ [n, TokenFileName]" by (simp add: Join_names)
  from d have "n \<in> set (children fs ad)" by (simp add: children_lookup)
  with ch have "n \<in> set (children fs1 ad)" by simp
  moreover from d below[of "ad @ [n]"] have "lookup fs1 (ad @ [n]) = Some Dir" by simp
  moreover from t j below[of "ad @ [n, TokenFileName]"] have "lookup fs1 (Join ad [n, TokenFileName]) \<noteq> None"
    by simp
  ultimately show "token_dirs fs1 ad \<noteq> []" by (auto simp: token_dirs_def filter_empty_conv)
qed

text \<open>
  What \<open>IsMultiAccount\<close> tests. When the configuration directory \<open>dir\<close> can be resolved, in
  a well-formed file system, it returns true exactly when \<^verbatim>\<open>accounts\<close> in \<open>dir\<close> is a directory
  and some directory directly in it has an entry named \<^verbatim>\<open>token.json\<close>: that the entry is
  there is all that is tested. It returns false without an error when \<^verbatim>\<open>accounts\<close> is
  absent, when it is an empty directory and when no directory in it has such an entry; it
  returns false with an error when \<^verbatim>\<open>accounts\<close> is a file.
\<close>

theorem IsMultiAccount_iff:
  assumes g: "GetConfigDir w = (Inr dir, w1)" and wf: "wf_fs (files w)"
  shows "fst (IsMultiAccount w) =
     (case lookup (files w) (dir @ [AccountsDirName]) of
        None \<Rightarrow> (False, None)
      | Some (File _) \<Rightarrow> (False, Some (PathError ''readdir'' (dir @ [AccountsDirName]) ENOTDIR))
      | Some Dir \<Rightarrow> (has_token_dir (files w) (dir @ [AccountsDirName]), None))"
proof -
  let ?ad = "dir @ [AccountsDirName]"
  from GetConfigDir_ok[OF g] obtain fs1 where m: "mkdirAll dir (files w) = Inr fs1"
    and w1: "w1 = logcall (SysMkdirAll dir) (w\<lparr>files := fs1\<rparr>)" by blast
  from w1 have f1: "files w1 = fs1" by simp
  have np: "\<not> prefix (?ad @ r) dir" for r
    by (auto simp: prefix_def)
  have below: "lookup fs1 (?ad @ r) = lookup (files w) (?ad @ r)" for r
    using mkdirAll_below[OF m np] .
  have ch: "children fs1 ?ad = children (files w) ?ad"
    by (rule mkdirAll_children[OF m]) (auto simp: strict_prefix_def prefix_def)
  have td: "token_dirs fs1 ?ad \<noteq> [] \<longleftrightarrow> has_token_dir (files w) ?ad"
  proof (rule has_token_dir_token_dirs[OF wf _ ch])
    fix q assume "prefix ?ad q" "q \<noteq> ?ad"
    then obtain r where "q = ?ad @ r" by (auto simp: prefix_def)
    with below show "lookup fs1 q = lookup (files w) q" by simp
  qed
  have dd: "lookup fs1 dir = Some Dir" using m by (rule mkdirAll_dir)
  have enoent: "missing_errno fs1 ?ad = ENOENT" if none: "lookup fs1 ?ad = None"
  proof -
    have "\<not> is_file (lookup fs1 q)" if "q \<in> set (prefixes ?ad)" for q
    proof -
      from that have "prefix q ?ad" by simp
      then consider "q = ?ad" | "prefix q dir" by (auto simp: prefix_snoc)
      then show ?thesis
      proof cases
        case 1
        with none show ?thesis by (simp add: is_file_def)
      next
        case 2
        from mkdirAll_prefixes_dir[OF wf m 2] show ?thesis by (simp add: is_file_def)
      qed
    qed
    then show ?thesis by (simp add: missing_errno_def list_ex_iff)
  qed
  from below[of "[]"] have b0: "lookup fs1 ?ad = lookup (files w) ?ad" by simp
  show ?thesis
    unfolding IsMultiAccount_fst[OF g] f1 using b0 td enoent
    by (auto split: option.splits node.splits)
qed


text \<open>One account with a token; no \<^verbatim>\<open>accounts\<close> directory; an account directory without a
  token.\<close>

theorem IsMultiAccount_iff_witness:
  "wf_fs (files one_account_world)
   \<and> fst (IsMultiAccount one_account_world) = (True, None)
   \<and> has_token_dir (files one_account_world) [''home'', ''user'', ''.go-google-mcp'', ''accounts'']
   \<and> fst (IsMultiAccount sample_world) = (False, None)
   \<and> fst (IsMultiAccount no_token_world) = (False, None)
   \<and> \<not> has_token_dir (files no_token_world) [''home'', ''user'', ''.go-google-mcp'', ''accounts'']"
proof -
  define dir where "dir = [''home'', ''user'', ''.go-google-mcp'']"
  have a: "dir @ [AccountsDirName] = [''home'', ''user'', ''.go-google-mcp'', ''accounts'']"
    by (simp add: dir_def AccountsDirName_def)
  have g: "GetConfigDir W = (Inr dir, snd (GetConfigDir W))" if "fst (GetConfigDir W) = Inr dir" for W
    using that by (metis prod.collapse)
  have g1: "fst (GetConfigDir one_account_world) = Inr dir" unfolding dir_def by code_simp
  have g2: "fst (GetConfigDir sample_world) = Inr dir" unfolding dir_def by code_simp
  have g3: "fst (GetConfigDir no_token_world) = Inr dir" unfolding dir_def by code_simp
  have w1: "wf_fs (files one_account_world)" by code_simp
  have w2: "wf_fs (files sample_world)" by code_simp
  have w3: "wf_fs (files no_token_world)" by code_simp
  have l1: "lookup (files one_account_world) [''home'', ''user'', ''.go-google-mcp'', ''accounts''] = Some Dir"
    by code_simp
  have l2: "lookup (files sample_world) [''home'', ''user'', ''.go-google-mcp'', ''accounts''] = None"
    by code_simp
  have l3: "lookup (files no_token_world) [''home'', ''user'', ''.go-google-mcp'', ''accounts''] = Some Dir"
    by code_simp
  have v1: "fst (IsMultiAccount one_account_world) = (True, None)" by code_simp
  have v3: "fst (IsMultiAccount no_token_world) = (False, None)" by code_simp
  from IsMultiAccount_iff[OF g[OF g1] w1] v1 l1
  have h1: "has_token_dir (files one_account_world) [''home'', ''user'', ''.go-google-mcp'', ''accounts'']"
    unfolding a by simp
  from IsMultiAccount_iff[OF g[OF g2] w2] l2
  have v2: "fst (IsMultiAccount sample_world) = (False, None)"
    unfolding a by simp
  from IsMultiAccount_iff[OF g[OF g3] w3] v3 l3
  have h3: "\<not> has_token_dir (files no_token_world) [''home'', ''user'', ''.go-google-mcp'', ''accounts'']"
    unfolding a by simp
  from w1 v1 h1 v2 v3 h3 show ?thesis by blast
qed

text \<open>
  Claim C7. \<open>IsMultiAccount\<close> is to return true if and only if some directory in
  \<^verbatim>\<open>accounts\<close> holds a valid token file, as its own comment says too ("at least one account
  directory with a valid token.json"). The code asks \<^verbatim>\<open>os.Stat\<close> whether an entry of that
  name exists and nothing more, so it returns true where there is no valid token file:
  when the only account directory holds an empty \<^verbatim>\<open>token.json\<close> (as a save whose encoding
  failed leaves it), from which \<open>LoadTokenForAccount\<close> loads nothing, and when it holds a
  directory of that name.
\<close>

theorem IsMultiAccount_invalid_token:
  "fst (IsMultiAccount empty_token_world) = (True, None)
   \<and> children (files empty_token_world) [''home'', ''user'', ''.go-google-mcp'', ''accounts''] = [''a@x.com'']
   \<and> lookup (files empty_token_world)
        [''home'', ''user'', ''.go-google-mcp'', ''accounts'', ''a@x.com'', ''token.json''] = Some (File [])
   \<and> \<not> valid_token_file sample_json (files empty_token_world)
        [''home'', ''user'', ''.go-google-mcp'', ''accounts'', ''a@x.com'', ''token.json'']
   \<and> isl (fst (LoadTokenForAccount sample_json ''a@x.com'' empty_token_world))
   \<and> fst (IsMultiAccount dir_token_world) = (True, None)
   \<and> children (files dir_token_world) [''home'', ''user'', ''.go-google-mcp'', ''accounts''] = [''a@x.com'']
   \<and> lookup (files dir_token_world)
        [''home'', ''user'', ''.go-google-mcp'', ''accounts'', ''a@x.com'', ''token.json''] = Some Dir
   \<and> \<not> valid_token_file sample_json (files dir_token_world)
        [''home'', ''user'', ''.go-google-mcp'', ''accounts'', ''a@x.com'', ''token.json'']"
  by code_simp

lemma configDir_listener [simp]: "configDir (w\<lparr>listener := l\<rparr>) = configDir w"
  by (simp add: configDir_def)

lemma GetConfigDir_of_mkdirAll:
  "configDir w = Inr dir \<Longrightarrow> mkdirAll dir (files w) = Inr fs1 \<Longrightarrow>
   GetConfigDir w = (Inr dir, logcall (SysMkdirAll dir) (w\<lparr>files := fs1\<rparr>))"
  by (simp add: GetConfigDir_eq)

lemma token_dirs_cong:
  assumes "children fs' ad = children fs ad"
    and "\<And>n. n \<in> set (children fs ad) \<Longrightarrow> lookup fs' (ad @ [n]) = lookup fs (ad @ [n])"
    and "\<And>n. n \<in> set (children fs ad) \<Longrightarrow> lookup fs (ad @ [n]) = Some Dir \<Longrightarrow>
          lookup fs' (Join ad [n, TokenFileName]) = lookup fs (Join ad [n, TokenFileName])"
  shows "token_dirs fs' ad = token_dirs fs ad"
  unfolding token_dirs_def assms(1)
  by (rule filter_cong[OF refl]) (use assms(2,3) in auto)

lemma accounts_scan_frame:
  assumes wf: "wf_fs (files w)" and g: "configDir w = Inr dir"
    and m: "mkdirAll dir (files w) = Inr fs1"
    and c': "configDir w' = Inr dir" and f': "files w' = news @ fs1"
    and news: "\<forall>x\<in>set news. \<exists>name. fst x = dir @ [name] \<and> name \<noteq> AccountsDirName"
  shows "fst (IsMultiAccount w') = fst (IsMultiAccount w)"
    and "fst (ListAccounts w') = fst (ListAccounts w)"
    and "\<forall>q. prefix (dir @ [AccountsDirName]) q \<longrightarrow> lookup (files w') q = lookup (files w) q"
proof -
  let ?ad = "dir @ [AccountsDirName]"
  have same: "lookup (news @ fs1) q = lookup fs1 q"
    if "\<And>name. name \<noteq> AccountsDirName \<Longrightarrow> q \<noteq> dir @ [name]" for q
  proof (rule lookup_append_new)
    show "\<forall>x\<in>set news. fst x \<noteq> q" using news that by metis
  qed
  have s_pre: "lookup (news @ fs1) q = lookup fs1 q" if "prefix q ?ad" for q
  proof (rule same)
    fix name assume "name \<noteq> AccountsDirName"
    from that consider "q = ?ad" | "prefix q dir" by (auto simp: prefix_snoc)
    then show "q \<noteq> dir @ [name]"
    proof cases
      case 1
      with \<open>name \<noteq> AccountsDirName\<close> show ?thesis by simp
    next
      case 2
      then show ?thesis by (auto simp: prefix_def)
    qed
  qed
  have s_below: "lookup (news @ fs1) (?ad @ r) = lookup fs1 (?ad @ r)" for r
    by (rule same) auto
  have d1: "lookup fs1 dir = Some Dir" using m by (rule mkdirAll_dir)
  have d': "lookup (files w') dir = Some Dir" unfolding f' using s_pre[of dir] d1 by simp
  have g1: "GetConfigDir w = (Inr dir, logcall (SysMkdirAll dir) (w\<lparr>files := fs1\<rparr>))"
    using g m by (rule GetConfigDir_of_mkdirAll)
  have g2: "GetConfigDir w' = (Inr dir, logcall (SysMkdirAll dir) w')"
    using c' d' by (rule GetConfigDir_again)
  have l_ad: "lookup (news @ fs1) ?ad = lookup fs1 ?ad" using s_below[of "[]"] by simp
  have me: "missing_errno (news @ fs1) ?ad = missing_errno fs1 ?ad"
  proof -
    have "list_ex (\<lambda>q. is_file (lookup (news @ fs1) q)) (prefixes ?ad)
        = list_ex (\<lambda>q. is_file (lookup fs1 q)) (prefixes ?ad)"
      unfolding list_ex_iff by (rule bex_cong[OF refl]) (simp add: s_pre)
    then show ?thesis by (simp only: missing_errno_def)
  qed
  have ch: "children (news @ fs1) ?ad = children fs1 ?ad"
  proof (rule children_cong)
    fix q :: path assume q: "q \<noteq> []" "butlast q = ?ad"
    have "q \<notin> fst ` set news"
    proof
      assume "q \<in> fst ` set news"
      with news obtain name where "q = dir @ [name]" by force
      with q(2) show False by simp
    qed
    then show "q \<in> fst ` set (news @ fs1) \<longleftrightarrow> q \<in> fst ` set fs1" by auto
  qed
  have np: "\<not> prefix (?ad @ r) dir" for r by (auto simp: prefix_def)
  have below1: "lookup fs1 (?ad @ r) = lookup (files w) (?ad @ r)" for r
    using mkdirAll_below[OF m np] .
  have td: "token_dirs (news @ fs1) ?ad = token_dirs fs1 ?ad"
  proof (rule token_dirs_cong[OF ch])
    fix n show "lookup (news @ fs1) (?ad @ [n]) = lookup fs1 (?ad @ [n])" by (rule s_below)
  next
    fix n assume "lookup fs1 (?ad @ [n]) = Some Dir"
    with below1[of "[n]"] have "lookup (files w) (?ad @ [n]) \<noteq> None" by simp
    with wf have "valid_name n" by (rule wf_fs_names)
    then have "Join ?ad [n, TokenFileName] = ?ad @ [n, TokenFileName]" by (simp add: Join_names)
    with s_below[of "[n, TokenFileName]"]
    show "lookup (news @ fs1) (Join ?ad [n, TokenFileName]) = lookup fs1 (Join ?ad [n, TokenFileName])"
      by simp
  qed
  have F1: "files (logcall (SysMkdirAll dir) (w\<lparr>files := fs1\<rparr>)) = fs1" by simp
  have F2: "files (logcall (SysMkdirAll dir) w') = news @ fs1" by (simp add: f')
  show "fst (IsMultiAccount w') = fst (IsMultiAccount w)"
    unfolding IsMultiAccount_fst[OF g1] IsMultiAccount_fst[OF g2] F1 F2 l_ad me td ..
  show "fst (ListAccounts w') = fst (ListAccounts w)"
    unfolding ListAccounts_fst[OF g1] ListAccounts_fst[OF g2] F1 F2 l_ad me td ..
  show "\<forall>q. prefix ?ad q \<longrightarrow> lookup (files w') q = lookup (files w) q"
  proof (intro allI impI)
    fix q assume "prefix ?ad q"
    then obtain r where "q = ?ad @ r" by (auto simp: prefix_def)
    with s_below[of r] below1[of r] show "lookup (files w') q = lookup (files w) q" by (simp add: f')
  qed
qed

subsection \<open>Login and the account directories\<close>

lemma SaveToken_ok:
  assumes "SaveToken J token w = (None, w2)"
  shows "\<exists>dir fs1 bytes. configDir w = Inr dir \<and> mkdirAll dir (files w) = Inr fs1
      \<and> Encode J token = Inr bytes
      \<and> files w2 = (dir @ [TokenFileName], File bytes) # (dir @ [TokenFileName], File []) # fs1
      \<and> trace w2 = trace w @ [SysMkdirAll dir, SysCreate (dir @ [TokenFileName])]
      \<and> configDir w2 = Inr dir"
proof -
  from assms obtain dir w1 where g: "GetConfigDir w = (Inr dir, w1)"
    by (auto simp: SaveToken_def split: prod.splits sum.splits)
  from GetConfigDir_ok[OF g] obtain fs1 where cd: "configDir w = Inr dir"
    and m: "mkdirAll dir (files w) = Inr fs1"
    and w1: "w1 = logcall (SysMkdirAll dir) (w\<lparr>files := fs1\<rparr>)" by blast
  have j: "Join dir [TokenFileName] = dir @ [TokenFileName]" by (simp add: Join_names)
  from assms g obtain bytes where enc: "Encode J token = Inr bytes"
    and w2: "w2 = file_Write (dir @ [TokenFileName]) bytes
                   (logcall (SysCreate (dir @ [TokenFileName])) (w1\<lparr>files := (dir @ [TokenFileName], File []) # files w1\<rparr>))"
    by (auto simp: SaveToken_def j os_Create_def split: prod.splits sum.splits option.splits)
  have "files w2 = (dir @ [TokenFileName], File bytes) # (dir @ [TokenFileName], File []) # fs1"
    unfolding w2 w1 by (simp add: file_Write_def logcall_def)
  moreover have "trace w2 = trace w @ [SysMkdirAll dir, SysCreate (dir @ [TokenFileName])]"
    unfolding w2 w1 by (simp add: file_Write_def logcall_def)
  moreover have "configDir w2 = Inr dir"
    unfolding w2 w1 using cd by (simp add: file_Write_def)
  ultimately show ?thesis using cd m enc by blast
qed

lemma Login_ok:
  assumes "Login oa J arr clientSecrets scs p = (Returned None, p')"
  shows "\<exists>token w2. SaveToken J token ((world p)\<lparr>listener := Listening\<rparr>) = (None, w2)
      \<and> world p' = w2\<lparr>listener := ShutDown\<rparr>"
  using assms
  by (auto simp: Login_def Let_def split: sum.splits if_splits arrival.splits prod.splits option.splits;
      blast)


lemma SaveSecrets_files:
  assumes cd: "configDir w = Inr dir" and d: "lookup (files w) dir = Some Dir"
  shows "\<exists>news. files (snd (SaveSecrets srcPath w)) = news @ files w
      \<and> (\<forall>x\<in>set news. fst x = dir @ [SecretsFileName])
      \<and> configDir (snd (SaveSecrets srcPath w)) = Inr dir"
proof -
  have j: "Join dir [SecretsFileName] = dir @ [SecretsFileName]" by (simp add: Join_names)
  let ?w1 = "logcall (SysReadFile (path_of srcPath)) w"
  have g: "GetConfigDir ?w1 = (Inr dir, logcall (SysMkdirAll dir) ?w1)"
    using cd d by (simp add: GetConfigDir_again)
  show ?thesis
  proof (cases "fst (os_ReadFile (path_of srcPath) w)")
    case (Inl e)
    then have "SaveSecrets srcPath w = (Some e, ?w1)"
      by (auto simp: SaveSecrets_def os_ReadFile_def split: option.splits node.splits)
    with cd show ?thesis by (intro exI[of _ "[]"]) simp
  next
    case (Inr content)
    then have s: "SaveSecrets srcPath w
        = os_WriteFile (dir @ [SecretsFileName]) content (logcall (SysMkdirAll dir) ?w1)"
      by (auto simp: SaveSecrets_def g j os_ReadFile_def split: option.splits node.splits)
    show ?thesis
    proof (cases "creatable (files w) (dir @ [SecretsFileName])")
      case None
      with cd show ?thesis unfolding s
        by (intro exI[of _ "[(dir @ [SecretsFileName], File content)]"]) (simp add: os_WriteFile_def)
    next
      case (Some e)
      with cd show ?thesis unfolding s
        by (intro exI[of _ "[]"]) (simp add: os_WriteFile_def)
    qed
  qed
qed

lemma fixed_names_differ: "TokenFileName \<noteq> AccountsDirName" "SecretsFileName \<noteq> AccountsDirName"
  by (simp_all add: TokenFileName_def AccountsDirName_def SecretsFileName_def)


lemma Login_frame:
  assumes wf: "wf_fs (files (world p))"
    and login: "Login oa J arr clientSecrets scs p = (Returned None, p')"
  shows "\<exists>dir fs1 token bytes.
        configDir (world p) = Inr dir \<and> mkdirAll dir (files (world p)) = Inr fs1
      \<and> Encode J token = Inr bytes
      \<and> files (world p') = (dir @ [TokenFileName], File bytes) # (dir @ [TokenFileName], File []) # fs1
      \<and> trace (world p') = trace (world p) @ [SysMkdirAll dir, SysCreate (dir @ [TokenFileName])]
      \<and> configDir (world p') = Inr dir
      \<and> (\<forall>q. prefix (dir @ [AccountsDirName]) q \<longrightarrow>
            lookup (files (world p')) q = lookup (files (world p)) q)
      \<and> fst (IsMultiAccount (world p')) = fst (IsMultiAccount (world p))
      \<and> fst (ListAccounts (world p')) = fst (ListAccounts (world p))"
proof -
  from Login_ok[OF login] obtain token w2 where
    st: "SaveToken J token ((world p)\<lparr>listener := Listening\<rparr>) = (None, w2)"
    and p': "world p' = w2\<lparr>listener := ShutDown\<rparr>" by blast
  from SaveToken_ok[OF st] obtain dir fs1 bytes where
    cd: "configDir (world p) = Inr dir" and m: "mkdirAll dir (files (world p)) = Inr fs1"
    and enc: "Encode J token = Inr bytes"
    and f2: "files w2 = (dir @ [TokenFileName], File bytes) # (dir @ [TokenFileName], File []) # fs1"
    and t2: "trace w2 = trace (world p) @ [SysMkdirAll dir, SysCreate (dir @ [TokenFileName])]"
    and c2: "configDir w2 = Inr dir"
    by auto
  let ?news = "[(dir @ [TokenFileName], File bytes), (dir @ [TokenFileName], File [])]"
  have f': "files (world p') = ?news @ fs1" unfolding p' using f2 by simp
  have c': "configDir (world p') = Inr dir" unfolding p' using c2 by simp
  have news: "\<forall>x\<in>set ?news. \<exists>name. fst x = dir @ [name] \<and> name \<noteq> AccountsDirName"
    using fixed_names_differ by auto
  note fr = accounts_scan_frame[OF wf cd m c' f' news]
  have "trace (world p') = trace (world p) @ [SysMkdirAll dir, SysCreate (dir @ [TokenFileName])]"
    unfolding p' using t2 by simp
  with cd m enc f' c' fr show ?thesis by (intro exI[of _ dir] exI[of _ fs1] exI[of _ token] exI[of _ bytes]) simp
qed

text \<open>
  Claim C10. In a well-formed file system, a run of \<open>Login\<close> that returns no error has made
  two calls into the file system, creating the configuration directory \<open>dir\<close> and creating
  \<^verbatim>\<open>token.json\<close> in it; the file system it leaves is the one after that \<^verbatim>\<open>MkdirAll\<close> with the
  encoded token at \<open>dir/token.json\<close>, and every path at or below \<open>dir/accounts\<close> holds what
  it held, so \<open>IsMultiAccount\<close> and \<open>ListAccounts\<close> return what they returned before. The
  same holds for a whole run of \<open>handleAuthCommand\<close> that completes, which also copies the
  secrets file. The command's flag set defines \<^verbatim>\<open>secrets\<close> only: with \<^verbatim>\<open>--account\<close> it exits
  with status 2 before doing anything. The registry's no-accounts message names that
  flag all the same.
\<close>

theorem login_leaves_accounts_alone:
  assumes wf: "wf_fs (files (world p))"
  shows "(\<forall>p'. Login oa J arr clientSecrets scs p = (Returned None, p') \<longrightarrow>
            (\<exists>dir fs1 token bytes.
                configDir (world p) = Inr dir \<and> mkdirAll dir (files (world p)) = Inr fs1
              \<and> Encode J token = Inr bytes
              \<and> files (world p') =
                  (dir @ [TokenFileName], File bytes) # (dir @ [TokenFileName], File []) # fs1
              \<and> trace (world p') = trace (world p) @ [SysMkdirAll dir, SysCreate (dir @ [TokenFileName])]
              \<and> (\<forall>q. prefix (dir @ [AccountsDirName]) q \<longrightarrow>
                    lookup (files (world p')) q = lookup (files (world p)) q))
          \<and> fst (IsMultiAccount (world p')) = fst (IsMultiAccount (world p))
          \<and> fst (ListAccounts (world p')) = fst (ListAccounts (world p)))
     \<and> (\<forall>args p'. handleAuthCommand oa J arr args p = (Returned Return, p') \<longrightarrow>
            fst (IsMultiAccount (world p')) = fst (IsMultiAccount (world p))
          \<and> fst (ListAccounts (world p')) = fst (ListAccounts (world p)))
     \<and> (\<forall>prog rest. handleAuthCommand oa J arr (prog # ''auth'' # ''login'' # ''--account'' # rest) p
            = (Returned (Exit 2), p))
     \<and> sublist ''--account'' no_accounts_message"
proof (intro conjI allI impI)
  fix p' assume login: "Login oa J arr clientSecrets scs p = (Returned None, p')"
  from Login_frame[OF wf login]
  show "\<exists>dir fs1 token bytes.
                configDir (world p) = Inr dir \<and> mkdirAll dir (files (world p)) = Inr fs1
              \<and> Encode J token = Inr bytes
              \<and> files (world p') =
                  (dir @ [TokenFileName], File bytes) # (dir @ [TokenFileName], File []) # fs1
              \<and> trace (world p') = trace (world p) @ [SysMkdirAll dir, SysCreate (dir @ [TokenFileName])]
              \<and> (\<forall>q. prefix (dir @ [AccountsDirName]) q \<longrightarrow>
                    lookup (files (world p')) q = lookup (files (world p)) q)"
    by blast
  from Login_frame[OF wf login]
  show "fst (IsMultiAccount (world p')) = fst (IsMultiAccount (world p))"
    and "fst (ListAccounts (world p')) = fst (ListAccounts (world p))"
    by blast+
next
  fix args p' assume cmd: "handleAuthCommand oa J arr args p = (Returned Return, p')"
  then obtain secretsPath secrets p2 where
    login: "Login oa J arr secrets login_scopes (p\<lparr>world := logcall (SysReadFile (path_of secretsPath)) (world p)\<rparr>)
              = (Returned None, p2)"
    and p': "world p' = snd (SaveSecrets secretsPath (world p2))"
    by (auto simp: handleAuthCommand_def Let_def os_ReadFile_def
             split: if_splits sum.splits flag_error.splits prod.splits option.splits node.splits
                    outcome.splits)
  let ?p0 = "p\<lparr>world := logcall (SysReadFile (path_of secretsPath)) (world p)\<rparr>"
  have wf0: "wf_fs (files (world ?p0))" using wf by simp
  from Login_frame[OF wf0 login] obtain dir fs1 token bytes where
    cd: "configDir (world p) = Inr dir" and m: "mkdirAll dir (files (world p)) = Inr fs1"
    and f2: "files (world p2) = (dir @ [TokenFileName], File bytes) # (dir @ [TokenFileName], File []) # fs1"
    and c2: "configDir (world p2) = Inr dir"
    by auto
  have d1: "lookup fs1 dir = Some Dir" using m by (rule mkdirAll_dir)
  have d2: "lookup (files (world p2)) dir = Some Dir" unfolding f2 using d1 by (simp add: lookup_Cons)
  from SaveSecrets_files[OF c2 d2, of secretsPath] obtain news where
    fn: "files (world p') = news @ files (world p2)"
    and nn: "\<forall>x\<in>set news. fst x = dir @ [SecretsFileName]"
    and c': "configDir (world p') = Inr dir"
    unfolding p' by blast
  let ?news = "news @ [(dir @ [TokenFileName], File bytes), (dir @ [TokenFileName], File [])]"
  have f': "files (world p') = ?news @ fs1" unfolding fn f2 by simp
  have news: "\<forall>x\<in>set ?news. \<exists>name. fst x = dir @ [name] \<and> name \<noteq> AccountsDirName"
    using fixed_names_differ nn by auto
  note fr = accounts_scan_frame[OF wf cd m c' f' news]
  from fr show "fst (IsMultiAccount (world p')) = fst (IsMultiAccount (world p))"
    and "fst (ListAccounts (world p')) = fst (ListAccounts (world p))" by blast+
next
  fix prog rest
  show "handleAuthCommand oa J arr (prog # ''auth'' # ''login'' # ''--account'' # rest) p
            = (Returned (Exit 2), p)"
    by (simp add: handleAuthCommand_def cut_value_def)
next
  show "sublist ''--account'' no_accounts_message" by code_simp
qed


text \<open>A login, and the whole command, in a world that has one account already.\<close>

theorem login_leaves_accounts_alone_witness:
  "wf_fs (files (world cli_process))
   \<and> fst (Login sample_oauth sample_json good_callback ''{secrets}'' login_scopes cli_process) = Returned None
   \<and> fst (IsMultiAccount (world (snd
         (Login sample_oauth sample_json good_callback ''{secrets}'' login_scopes cli_process)))) = (True, None)
   \<and> fst (ListAccounts (world (snd
         (Login sample_oauth sample_json good_callback ''{secrets}'' login_scopes cli_process)))) = Inr [''a@x.com'']
   \<and> fst (handleAuthCommand sample_oauth sample_json good_callback
         [''go-google-mcp'', ''auth'', ''login'', ''--secrets'', ''/tmp/cs.json''] cli_process) = Returned Return
   \<and> fst (ListAccounts (world (snd (handleAuthCommand sample_oauth sample_json good_callback
         [''go-google-mcp'', ''auth'', ''login'', ''--secrets'', ''/tmp/cs.json''] cli_process)))) = Inr [''a@x.com'']
   \<and> handleAuthCommand sample_oauth sample_json good_callback
         [''go-google-mcp'', ''auth'', ''login'', ''--account'', ''b@y.org'', ''--secrets'', ''/tmp/cs.json'']
         cli_process = (Returned (Exit 2), cli_process)"
proof -
  define L where "L = Login sample_oauth sample_json good_callback ''{secrets}'' login_scopes cli_process"
  define H where "H = handleAuthCommand sample_oauth sample_json good_callback
         [''go-google-mcp'', ''auth'', ''login'', ''--secrets'', ''/tmp/cs.json''] cli_process"
  have wf: "wf_fs (files (world cli_process))" by code_simp
  have l: "fst L = Returned None" unfolding L_def by code_simp
  then have login: "Login sample_oauth sample_json good_callback ''{secrets}'' login_scopes cli_process
      = (Returned None, snd L)" unfolding L_def by (metis prod.collapse)
  have h: "fst H = Returned Return" unfolding H_def by code_simp
  then have cmd: "handleAuthCommand sample_oauth sample_json good_callback
         [''go-google-mcp'', ''auth'', ''login'', ''--secrets'', ''/tmp/cs.json''] cli_process
      = (Returned Return, snd H)" unfolding H_def by (metis prod.collapse)
  have m0: "fst (IsMultiAccount (world cli_process)) = (True, None)" by code_simp
  have a0: "fst (ListAccounts (world cli_process)) = Inr [''a@x.com'']" by code_simp
  note t = login_leaves_accounts_alone[OF wf, of sample_oauth sample_json good_callback "''{secrets}''" login_scopes]
  from t login m0 have m1: "fst (IsMultiAccount (world (snd L))) = (True, None)" by metis
  from t login a0 have a1: "fst (ListAccounts (world (snd L))) = Inr [''a@x.com'']" by metis
  from t cmd a0 have a2: "fst (ListAccounts (world (snd H))) = Inr [''a@x.com'']" by metis
  from t have r: "handleAuthCommand sample_oauth sample_json good_callback
         [''go-google-mcp'', ''auth'', ''login'', ''--account'', ''b@y.org'', ''--secrets'', ''/tmp/cs.json'']
         cli_process = (Returned (Exit 2), cli_process)" by blast
  from wf l m1 a1 h a2 r show ?thesis unfolding L_def H_def by blast
qed

end
